theory Spec2Isabelle
  imports Complex_Main
begin

section \<open>Python values used by the scripts\<close>

text \<open>
  A Python \<open>str\<close> is a sequence of Unicode code points; \<open>len\<close>, iteration, \<open>join\<close> and
  \<open>split\<close> all work per code point. The model is a list of code points, so that an Arabic
  letter is one element (an Isabelle \<open>char\<close> is a byte and would make it two).
  \<open>ascii\<close> embeds an ASCII literal.
\<close>

type_synonym ustr = "nat list"

definition ascii :: "string \<Rightarrow> ustr" where
  "ascii s = map of_char s"

text \<open>The exceptions that the modelled code can raise.\<close>

datatype py_error =
  ValueError | ZeroDivisionError | EOFError | KeyError | IntegrityError | OverflowError

text \<open>\<open>'-'\<close>, and the three letters of the root used as the running example (U+0631 REH,
  U+062D HAH, U+0645 MEEM) and of the second root of the deduplication example (U+0639 AIN,
  U+0644 LAM, U+0645 MEEM).\<close>

definition dash :: nat where "dash = 45"

definition rhm :: ustr where "rhm = [1585, 1581, 1605]"

definition elm :: ustr where "elm = [1593, 1604, 1605]"

definition r_h_m :: ustr where "r_h_m = [1585, 45, 1581, 45, 1605]"

section \<open>Morphology importer: \<open>import_roots_from_morphology.py\<close>\<close>

subsection \<open>\<open>format_root\<close>\<close>

text \<open>\<open>sep.join(s)\<close> for a one-character separator and a string \<open>s\<close>: the characters of
  \<open>s\<close> with the separator between neighbours.\<close>

fun join :: "nat \<Rightarrow> ustr \<Rightarrow> ustr" where
  "join sep [] = []"
| "join sep [c] = [c]"
| "join sep (c # d # cs) = c # sep # join sep (d # cs)"

text \<open>
  \<^verbatim>\<open>
  def format_root(root):
      if not root:
          return None
      return '-'.join(root)
  \<close>
  The argument is \<open>None\<close> or a string; \<open>not root\<close> holds for \<open>None\<close> and for \<open>''\<close>.
\<close>

definition format_root :: "ustr option \<Rightarrow> ustr option" where
  "format_root rt =
     (case rt of
        None \<Rightarrow> None
      | Some r \<Rightarrow> if r = [] then None else Some (join dash r))"

subsection \<open>String operations of \<open>parse_morphology\<close>\<close>

text \<open>\<open>str.isspace\<close> for one character: the code points that Python's \<open>strip()\<close> removes
  (tab to carriage return, the four separators U+001C to U+001F, space, U+0085, U+00A0,
  U+1680, U+2000 to U+200A, U+2028, U+2029, U+202F, U+205F, U+3000).\<close>

definition isspace :: "nat \<Rightarrow> bool" where
  "isspace c \<longleftrightarrow>
     (9 \<le> c \<and> c \<le> 13) \<or> (28 \<le> c \<and> c \<le> 32) \<or> c = 133 \<or> c = 160 \<or> c = 5760 \<or>
     (8192 \<le> c \<and> c \<le> 8202) \<or> c = 8232 \<or> c = 8233 \<or> c = 8239 \<or> c = 8287 \<or> c = 12288"

text \<open>\<open>s.strip()\<close>: whitespace removed at both ends.\<close>

definition py_strip :: "ustr \<Rightarrow> ustr" where
  "py_strip s = rev (dropWhile isspace (rev (dropWhile isspace s)))"

text \<open>\<open>s.split(sep)\<close> for a one-character separator: every occurrence of the separator
  cuts, so \<open>k\<close> separators give \<open>k + 1\<close> pieces and the empty string gives one empty piece.\<close>

fun py_split :: "nat \<Rightarrow> ustr \<Rightarrow> ustr list" where
  "py_split sep [] = [[]]"
| "py_split sep (c # cs) =
     (if c = sep then [] # py_split sep cs
      else (case py_split sep cs of
              [] \<Rightarrow> [[c]]
            | p # ps \<Rightarrow> (c # p) # ps))"

text \<open>\<open>s.startswith(p)\<close>.\<close>

definition startswith :: "ustr \<Rightarrow> ustr \<Rightarrow> bool" where
  "startswith s p \<longleftrightarrow> take (length p) s = p"

definition newline :: nat where "newline = 10"

definition tab :: nat where "tab = 9"

definition colon :: nat where "colon = 58"

definition pipe :: nat where "pipe = 124"

definition hash :: nat where "hash = 35"

definition underscore :: nat where "underscore = 95"

text \<open>
  \<open>int(s)\<close> on a string, base ten, as CPython 3.11 reads it. Whitespace is skipped at both
  ends: tab to carriage return, space, and the Unicode spaces beyond ASCII; the separators
  U+001C to U+001F, which \<open>strip()\<close> removes, are not among them. Then comes an optional
  \<open>+\<close> or \<open>-\<close>, then decimal digits of any script, in which single underscores may stand
  between two digits. Anything else raises \<open>ValueError\<close>, and so does a number of more than
  4300 digits (the interpreter's default limit, which the scripts do not change).
\<close>

definition int_space :: "nat \<Rightarrow> bool" where
  "int_space c \<longleftrightarrow>
     (9 \<le> c \<and> c \<le> 13) \<or> c = 32 \<or> c = 133 \<or> c = 160 \<or> c = 5760 \<or>
     (8192 \<le> c \<and> c \<le> 8202) \<or> c = 8232 \<or> c = 8233 \<or> c = 8239 \<or> c = 8287 \<or> c = 12288"

text \<open>The decimal digits of the Unicode database (version 14, that of the interpreter): 66
  runs of ten code points, each from the digit zero of a script to its digit nine, given
  by their zeros. \<open>48\<close> is \<open>0\<close>, \<open>1632\<close> the Arabic-Indic zero.\<close>

definition decimal_zeros :: "nat list" where
  "decimal_zeros =
     [48, 1632, 1776, 1984, 2406, 2534, 2662, 2790,
      2918, 3046, 3174, 3302, 3430, 3558, 3664, 3792,
      3872, 4160, 4240, 6112, 6160, 6470, 6608, 6784,
      6800, 6992, 7088, 7232, 7248, 42528, 43216, 43264,
      43472, 43504, 43600, 44016, 65296, 66720, 68912, 69734,
      69872, 69942, 70096, 70384, 70736, 70864, 71248, 71360,
      71472, 71904, 72016, 72784, 73040, 73120, 92768, 92864,
      93008, 120782, 120792, 120802, 120812, 120822, 123200, 123632,
      125264, 130032]"

definition digit_value :: "nat \<Rightarrow> nat option" where
  "digit_value c =
     (case find (\<lambda>z. z \<le> c \<and> c < z + 10) decimal_zeros of
        None \<Rightarrow> None
      | Some z \<Rightarrow> Some (c - z))"

text \<open>The digits of a run of digits and underscores, \<open>None\<close> when a character is neither,
  when two underscores meet or when the run ends with one.\<close>

fun scan_digits :: "ustr \<Rightarrow> nat list option" where
  "scan_digits [] = Some []"
| "scan_digits [c] = map_option (\<lambda>v. [v]) (digit_value c)"
| "scan_digits (c # d # cs) =
     (case digit_value c of
        Some v \<Rightarrow> map_option ((#) v) (scan_digits (d # cs))
      | None \<Rightarrow>
          if c = underscore \<and> digit_value d \<noteq> None then scan_digits (d # cs) else None)"

definition max_str_digits :: nat where "max_str_digits = 4300"

definition py_int :: "ustr \<Rightarrow> int option" where
  "py_int s =
     (let t = rev (dropWhile int_space (rev (dropWhile int_space s)));
          neg = (t \<noteq> [] \<and> hd t = 45);
          body = (if t \<noteq> [] \<and> (hd t = 45 \<or> hd t = 43) then tl t else t)
      in if body = [] \<or> digit_value (hd body) = None then None
         else
           (case scan_digits body of
              None \<Rightarrow> None
            | Some ds \<Rightarrow>
                if length ds > max_str_digits then None
                else
                  (let n = foldl (\<lambda>acc v. 10 * acc + v) 0 ds
                   in Some (if neg then - int n else int n))))"

text \<open>
  \<open>re.search(r'ROOT:([^\|]+)', morphology)\<close>, the captured group or \<open>None\<close>. A match at a
  position needs the five characters \<open>ROOT:\<close> and then at least one character other than
  \<open>|\<close>; the group takes all characters up to the next \<open>|\<close> or the end. \<open>search\<close> returns
  the match at the leftmost position that has one.
\<close>

definition root_match_at :: "ustr \<Rightarrow> ustr option" where
  "root_match_at s =
     (if startswith s (ascii ''ROOT:'')
      then (let g = takeWhile (\<lambda>c. c \<noteq> pipe) (drop 5 s)
            in if g = [] then None else Some g)
      else None)"

fun re_search_root :: "ustr \<Rightarrow> ustr option" where
  "re_search_root [] = None"
| "re_search_root (c # cs) =
     (case root_match_at (c # cs) of
        Some g \<Rightarrow> Some g
      | None \<Rightarrow> re_search_root cs)"

subsection \<open>\<open>parse_morphology\<close>\<close>

text \<open>
  The dictionary \<open>word_roots\<close>, keyed by \<open>(sura, ayah, word_pos)\<close>. A Python dictionary
  keeps its keys in insertion order and \<open>update_database\<close> iterates in that order, so the
  model is an association list to which a new key is appended. The values are what
  \<open>format_root\<close> returns: a string or \<open>None\<close>.
\<close>

type_synonym word_key = "int \<times> int \<times> int"

type_synonym word_roots = "(word_key \<times> ustr option) list"

text \<open>
  The body of the loop over the lines, from the dictionary before the line to the
  dictionary after it; every \<open>continue\<close> leaves the dictionary as it is, and a failing
  \<open>int(...)\<close> ends the whole function with \<open>ValueError\<close>.
  \<^verbatim>\<open>
      if not line or line.startswith('#'):
          continue
      parts = line.split('\t')
      if len(parts) < 4:
          continue
      location = parts[0]
      morphology = parts[3]
      loc_parts = location.split(':')
      if len(loc_parts) < 3:
          continue
      sura = int(loc_parts[0])
      ayah = int(loc_parts[1])
      word_pos = int(loc_parts[2])
      root_match = re.search(r'ROOT:([^\|]+)', morphology)
      if root_match:
          root = root_match.group(1)
          key = (sura, ayah, word_pos)
          if key not in word_roots:
              word_roots[key] = format_root(root)
  \<close>
\<close>

definition parse_line :: "word_roots \<Rightarrow> ustr \<Rightarrow> py_error + word_roots" where
  "parse_line word_roots line =
     (if line = [] \<or> startswith line [hash] then Inr word_roots
      else
        let parts = py_split tab line in
        if length parts < 4 then Inr word_roots
        else
          let location = parts ! 0;
              morphology = parts ! 3;
              loc_parts = py_split colon location in
          if length loc_parts < 3 then Inr word_roots
          else
            (case py_int (loc_parts ! 0) of
               None \<Rightarrow> Inl ValueError
             | Some sura \<Rightarrow>
            (case py_int (loc_parts ! 1) of
               None \<Rightarrow> Inl ValueError
             | Some ayah \<Rightarrow>
            (case py_int (loc_parts ! 2) of
               None \<Rightarrow> Inl ValueError
             | Some word_pos \<Rightarrow>
            (case re_search_root morphology of
               None \<Rightarrow> Inr word_roots
             | Some rt \<Rightarrow>
                 let key = (sura, ayah, word_pos) in
                 if map_of word_roots key = None
                 then Inr (word_roots @ [(key, format_root (Some rt))])
                 else Inr word_roots)))))"

fun parse_lines :: "word_roots \<Rightarrow> ustr list \<Rightarrow> py_error + word_roots" where
  "parse_lines word_roots [] = Inr word_roots"
| "parse_lines word_roots (line # rest) =
     (case parse_line word_roots line of
        Inl e \<Rightarrow> Inl e
      | Inr word_roots' \<Rightarrow> parse_lines word_roots' rest)"

definition parse_morphology :: "ustr \<Rightarrow> py_error + word_roots" where
  "parse_morphology data = parse_lines [] (py_split newline (py_strip data))"

text \<open>
  What one line offers to the dictionary, read off the loop body: the key and the raw root
  of a line that is kept, has four fields and three location components that are integers,
  and has a \<open>ROOT\<close> tag; \<open>None\<close> for every other line. It is used to say which lines
  ``carry a ROOT tag for a key''.
\<close>

definition root_tag_of :: "ustr \<Rightarrow> (word_key \<times> ustr) option" where
  "root_tag_of line =
     (if line = [] \<or> startswith line [hash] \<or> length (py_split tab line) < 4 \<or>
         length (py_split colon (py_split tab line ! 0)) < 3 then None
      else
        (case (py_int (py_split colon (py_split tab line ! 0) ! 0),
               py_int (py_split colon (py_split tab line ! 0) ! 1),
               py_int (py_split colon (py_split tab line ! 0) ! 2),
               re_search_root (py_split tab line ! 3)) of
           (Some sura, Some ayah, Some word_pos, Some rt) \<Rightarrow> Some ((sura, ayah, word_pos), rt)
         | _ \<Rightarrow> None))"

text \<open>The lines that the two length checks of the loop body reject.\<close>

definition too_short :: "ustr \<Rightarrow> bool" where
  "too_short line \<longleftrightarrow>
     length (py_split tab line) < 4 \<or> length (py_split colon (py_split tab line ! 0)) < 3"

text \<open>The two-segment input of the deduplication example: location \<open>1:1:1\<close> twice, the
  first segment tagged with the root REH HAH MEEM, the second with AIN LAM MEEM.\<close>

definition two_segments :: ustr where
  "two_segments =
     ascii ''1:1:1:1'' @ [tab] @ ascii ''x'' @ [tab] @ ascii ''N'' @ [tab] @
       ascii ''ROOT:'' @ rhm @ ascii ''|LEM:y|M'' @ [newline] @
     ascii ''1:1:1:2'' @ [tab] @ ascii ''z'' @ [tab] @ ascii ''N'' @ [tab] @
       ascii ''ROOT:'' @ elm @ [newline]"


text \<open>An input whose only line has four fields and a location of three components that
  are letters.\<close>

definition bad_location :: ustr where
  "bad_location =
     ascii ''a:b:c:1'' @ [tab] @ ascii ''x'' @ [tab] @ ascii ''N'' @ [tab] @ ascii ''ROOT:'' @ rhm"

section \<open>The database file\<close>

text \<open>
  The scripts share one SQLite file. Its \<open>word_translations\<close> table is created elsewhere;
  the statements of the scripts use the columns below. \<open>id\<close> and the three coordinates are
  integers; the text columns may hold \<open>NULL\<close> (\<open>None\<close>), since the scripts themselves test
  \<open>etymology IS NULL\<close> and nothing in them declares the others \<open>NOT NULL\<close>. A table is the
  list of its rows.
\<close>

record word_row =
  row_id :: int
  sura :: int
  ayah :: int
  word_position :: int
  arabic_text :: "ustr option"
  translation :: "ustr option"
  transliteration :: "ustr option"
  etymology :: "ustr option"

text \<open>
  The \<open>root_meanings\<close> table, as the seeder creates it:
  \<^verbatim>\<open>
  CREATE TABLE IF NOT EXISTS root_meanings(
      id INTEGER PRIMARY KEY AUTOINCREMENT,
      root TEXT NOT NULL UNIQUE,
      primary_meaning TEXT NOT NULL,
      extended_meaning TEXT,
      quran_usage TEXT,
      notes TEXT)
  \<close>
\<close>

record root_meaning =
  rm_id :: int
  root_col :: ustr
  primary_meaning :: ustr
  extended_meaning :: "ustr option"
  quran_usage :: "ustr option"
  notes_col :: "ustr option"

text \<open>
  The file: the two tables and, for \<open>AUTOINCREMENT\<close>, the largest \<open>id\<close> that
  \<open>root_meanings\<close> has ever used (SQLite keeps it in \<open>sqlite_sequence\<close>). After
  \<open>CREATE TABLE IF NOT EXISTS\<close> a table that was missing is an empty table with sequence
  \<open>0\<close>, so the model does not tell the two apart.
\<close>

record database =
  word_translations :: "word_row list"
  root_meanings :: "root_meaning list"
  root_meanings_seq :: int

text \<open>
  A connection: the file as it is on disk, and the file as the connection's open
  transaction sees it. Statements work on the second; \<open>commit\<close> writes it to the first;
  \<open>close\<close> leaves the file with what was committed.
\<close>

record connection =
  disk :: database
  txn :: database

definition connect :: "database \<Rightarrow> connection" where
  "connect db = \<lparr>disk = db, txn = db\<rparr>"

definition commit :: "connection \<Rightarrow> connection" where
  "commit conn = conn\<lparr>disk := txn conn\<rparr>"

definition close :: "connection \<Rightarrow> database" where
  "close conn = disk conn"

subsection \<open>\<open>update_database\<close>\<close>

text \<open>
  The \<open>sqlite3\<close> module binds a Python \<open>int\<close> as a 64-bit SQLite integer and raises
  \<open>OverflowError\<close> for one outside that range.
\<close>

definition sqlite_int :: "int \<Rightarrow> bool" where
  "sqlite_int n \<longleftrightarrow> - (2 ^ 63) \<le> n \<and> n < 2 ^ 63"

text \<open>
  \<^verbatim>\<open>
  UPDATE word_translations SET etymology = ?
  WHERE sura = ? AND ayah = ? AND word_position = ?
  \<close>
  with the connection after the statement and \<open>cursor.rowcount\<close>, the number of rows that
  the \<open>WHERE\<close> clause selected, or the \<open>OverflowError\<close> of a coordinate that cannot be bound.
  (Other failures of the database engine itself, such as a missing table or a locked file,
  are outside the model.)
\<close>

definition at_position :: "int \<Rightarrow> int \<Rightarrow> int \<Rightarrow> word_row \<Rightarrow> bool" where
  "at_position s a w r \<longleftrightarrow> sura r = s \<and> ayah r = a \<and> word_position r = w"

definition update_at_position ::
    "connection \<Rightarrow> ustr option \<Rightarrow> int \<Rightarrow> int \<Rightarrow> int \<Rightarrow> py_error + connection \<times> nat" where
  "update_at_position conn v s a w =
     (if sqlite_int s \<and> sqlite_int a \<and> sqlite_int w
      then
        (let rows = word_translations (txn conn)
         in Inr (conn\<lparr>txn := (txn conn)\<lparr>word_translations :=
                      map (\<lambda>r. if at_position s a w r then r\<lparr>etymology := v\<rparr> else r) rows\<rparr>\<rparr>,
                 length (filter (at_position s a w) rows)))
      else Inl OverflowError)"

text \<open>
  \<^verbatim>\<open>
  updated = 0
  not_found = 0
  for (sura, ayah, word_pos), root in word_roots.items():
      cursor.execute(..., (root, sura, ayah, word_pos))
      if cursor.rowcount > 0:
          updated += 1
      else:
          not_found += 1
  conn.commit()
  conn.close()
  return updated, not_found
  \<close>
  An exception of \<open>execute\<close> ends the loop and the function.
\<close>

fun update_rows ::
    "word_roots \<Rightarrow> connection \<times> nat \<times> nat \<Rightarrow> py_error + connection \<times> nat \<times> nat" where
  "update_rows [] st = Inr st"
| "update_rows (((s, a, w), rt) # rest) (conn, updated, not_found) =
     (case update_at_position conn rt s a w of
        Inl e \<Rightarrow> Inl e
      | Inr (conn', rowcount) \<Rightarrow>
          if rowcount > 0 then update_rows rest (conn', updated + 1, not_found)
          else update_rows rest (conn', updated, not_found + 1))"

text \<open>The file after the call, and its outcome: the returned pair \<open>(updated, not_found)\<close>, or
  the exception. An exception leaves the function before \<open>commit\<close>, so the file stays as
  it was.\<close>

definition update_database ::
    "word_roots \<Rightarrow> database \<Rightarrow> database \<times> (py_error + nat \<times> nat)" where
  "update_database word_roots db =
     (case update_rows word_roots (connect db, 0, 0) of
        Inl e \<Rightarrow> (db, Inl e)
      | Inr (conn, updated, not_found) \<Rightarrow> (close (commit conn), Inr (updated, not_found)))"

text \<open>The keys all of whose coordinates can be bound.\<close>

definition sqlite_key :: "word_key \<Rightarrow> bool" where
  "sqlite_key k \<longleftrightarrow> sqlite_int (fst k) \<and> sqlite_int (fst (snd k)) \<and> sqlite_int (snd (snd k))"

text \<open>Whether a key of the mapping is the coordinate of some row of the table.\<close>

definition key_found :: "word_row list \<Rightarrow> word_key \<Rightarrow> bool" where
  "key_found rows k \<longleftrightarrow> (\<exists>r \<in> set rows. at_position (fst k) (fst (snd k)) (snd (snd k)) r)"

section \<open>Etymology populator: \<open>populate_etymology.py\<close>\<close>

text \<open>
  \<^verbatim>\<open>UPDATE word_translations SET etymology = ? WHERE arabic_text = ?\<close>
  with the connection after the statement and \<open>cursor.rowcount\<close>. In SQL a comparison with
  \<open>NULL\<close> is never true, so a \<open>NULL\<close> column or a \<open>None\<close> parameter selects no row.
\<close>

definition has_text :: "ustr option \<Rightarrow> word_row \<Rightarrow> bool" where
  "has_text a r \<longleftrightarrow> a \<noteq> None \<and> arabic_text r = a"

definition update_by_text :: "connection \<Rightarrow> ustr option \<Rightarrow> ustr option \<Rightarrow> connection \<times> nat" where
  "update_by_text conn v a =
     (let rows = word_translations (txn conn)
      in (conn\<lparr>txn := (txn conn)\<lparr>word_translations :=
                 map (\<lambda>r. if has_text a r then r\<lparr>etymology := v\<rparr> else r) rows\<rparr>\<rparr>,
          length (filter (has_text a) rows)))"

subsection \<open>\<open>update_from_json\<close> and \<open>update_from_csv\<close>\<close>

text \<open>
  \<open>json.load\<close> gives the dictionary \<open>mappings\<close>: its items in order, each a key (a string)
  and a value, a string or \<open>None\<close> for JSON \<open>null\<close> (the file format is a flat mapping of
  strings; numbers and nested values are outside the model).
  \<^verbatim>\<open>
  updated = 0
  for arabic_text, etymology in mappings.items():
      cursor.execute("UPDATE ...", (etymology, arabic_text))
      updated += cursor.rowcount
  conn.commit()
  \<close>
\<close>

fun json_rows :: "(ustr \<times> ustr option) list \<Rightarrow> connection \<times> nat \<Rightarrow> connection \<times> nat" where
  "json_rows [] st = st"
| "json_rows ((a, e) # rest) (conn, updated) =
     (let (conn', rowcount) = update_by_text conn e (Some a)
      in json_rows rest (conn', updated + rowcount))"

text \<open>The file after the call and the count that is printed.\<close>

definition update_from_json :: "(ustr \<times> ustr option) list \<Rightarrow> database \<Rightarrow> database \<times> nat" where
  "update_from_json mappings db =
     (let (conn, updated) = json_rows mappings (connect db, 0)
      in (close (commit conn), updated))"

text \<open>
  A row of \<open>csv.DictReader\<close>: a dictionary from the names of the header to the fields of
  the line, where a field that the line is too short for is \<open>None\<close>. \<open>row.get(k)\<close> is
  \<open>None\<close> for a name that the header lacks; \<open>row[k]\<close> raises \<open>KeyError\<close> for it.
\<close>

type_synonym csv_row = "(ustr \<times> ustr option) list"

definition row_get :: "csv_row \<Rightarrow> ustr \<Rightarrow> ustr option" where
  "row_get row k = (case map_of row k of None \<Rightarrow> None | Some v \<Rightarrow> v)"

definition row_item :: "csv_row \<Rightarrow> ustr \<Rightarrow> py_error + ustr option" where
  "row_item row k = (case map_of row k of None \<Rightarrow> Inl KeyError | Some v \<Rightarrow> Inr v)"

text \<open>Truth value of a string or \<open>None\<close>: false for \<open>None\<close> and for \<open>''\<close>.\<close>

definition truthy :: "ustr option \<Rightarrow> bool" where
  "truthy v \<longleftrightarrow> v \<noteq> None \<and> v \<noteq> Some []"

text \<open>
  \<^verbatim>\<open>
  for row in reader:
      if row.get('etymology'):
          cursor.execute("UPDATE ...", (row['etymology'], row['arabic_text']))
          updated += cursor.rowcount
  conn.commit()
  \<close>
  \<open>row['etymology']\<close> cannot fail where \<open>row.get('etymology')\<close> was true.
\<close>

fun csv_rows :: "csv_row list \<Rightarrow> connection \<times> nat \<Rightarrow> py_error + connection \<times> nat" where
  "csv_rows [] st = Inr st"
| "csv_rows (row # rest) (conn, updated) =
     (if truthy (row_get row (ascii ''etymology''))
      then (case row_item row (ascii ''arabic_text'') of
              Inl e \<Rightarrow> Inl e
            | Inr a \<Rightarrow>
                (let (conn', rowcount) = update_by_text conn (row_get row (ascii ''etymology'')) a
                 in csv_rows rest (conn', updated + rowcount)))
      else csv_rows rest (conn, updated))"

text \<open>The file after the call and the count that is printed; an exception leaves the
  function before \<open>commit\<close>, so the file stays as it was.\<close>

definition update_from_csv :: "csv_row list \<Rightarrow> database \<Rightarrow> py_error + database \<times> nat" where
  "update_from_csv reader db =
     (case csv_rows reader (connect db, 0) of
        Inl e \<Rightarrow> Inl e
      | Inr (conn, updated) \<Rightarrow> Inr (close (commit conn), updated))"

subsection \<open>\<open>interactive_mode\<close>\<close>

text \<open>
  \<^verbatim>\<open>
  SELECT DISTINCT arabic_text, translation, transliteration
  FROM word_translations
  WHERE etymology IS NULL OR etymology = ''
  ORDER BY id
  LIMIT 100
  \<close>
  The rows without etymology in the order of their \<open>id\<close>, each triple once, at the place
  of its first row, and at most 100 of them.
\<close>

type_synonym word_triple = "ustr option \<times> ustr option \<times> ustr option"

definition missing_etymology :: "word_row \<Rightarrow> bool" where
  "missing_etymology r \<longleftrightarrow> etymology r = None \<or> etymology r = Some []"

definition distinct_first :: "'a list \<Rightarrow> 'a list" where
  "distinct_first xs = rev (remdups (rev xs))"

definition select_words :: "database \<Rightarrow> word_triple list" where
  "select_words db =
     take 100 (distinct_first
       (map (\<lambda>r. (arabic_text r, translation r, transliteration r))
          (sort_key row_id (filter missing_etymology (word_translations db)))))"

text \<open>
  \<open>s.lower()\<close>, character by character. The letters \<open>A\<close> to \<open>Z\<close> become \<open>a\<close> to \<open>z\<close> and the
  Kelvin sign U+212A becomes \<open>k\<close>; these are the only characters whose lower case is an
  ASCII letter other than themselves, so the comparisons with \<open>'quit'\<close> and \<open>'skip'\<close> come
  out as in Python. Other characters are left as they are.
\<close>

definition lower_char :: "nat \<Rightarrow> nat" where
  "lower_char c = (if 65 \<le> c \<and> c \<le> 90 then c + 32 else if c = 8490 then 107 else c)"

definition py_lower :: "ustr \<Rightarrow> ustr" where
  "py_lower s = map lower_char s"

text \<open>
  The loop over the selected words. \<open>input\<close> takes the next line of the input (the list
  holds the lines still unread, without their line ends) and raises \<open>EOFError\<close> when there
  is none. The result is the connection and the input left unread when the loop ends. The
  prompts and confirmations that the loop prints have no effect on either and are left out.
  \<^verbatim>\<open>
  for arabic, translation, translit in words:
      etymology = input("Etymology: ").strip()
      if etymology.lower() == 'quit':
          break
      elif etymology.lower() == 'skip' or not etymology:
          continue
      else:
          cursor.execute("UPDATE word_translations SET etymology = ? WHERE arabic_text = ?",
                         (etymology, arabic))
  \<close>
\<close>

fun interactive_loop ::
    "connection \<Rightarrow> word_triple list \<Rightarrow> ustr list \<Rightarrow> py_error + connection \<times> ustr list" where
  "interactive_loop conn [] stdin = Inr (conn, stdin)"
| "interactive_loop conn (word # words) [] = Inl EOFError"
| "interactive_loop conn ((arabic, tr, translit) # words) (line # stdin) =
     (let etym = py_strip line in
      if py_lower etym = ascii ''quit'' then Inr (conn, stdin)
      else if py_lower etym = ascii ''skip'' \<or> etym = [] then interactive_loop conn words stdin
      else interactive_loop (fst (update_by_text conn (Some etym) arabic)) words stdin)"

text \<open>The file after the session and the input left unread. \<open>commit\<close> comes after the
  loop, also when \<open>quit\<close> ended it; an exception leaves the function before it.\<close>

definition interactive_mode :: "ustr list \<Rightarrow> database \<Rightarrow> py_error + database \<times> ustr list" where
  "interactive_mode stdin db =
     (let conn = connect db;
          words = select_words (txn conn)
      in case interactive_loop conn words stdin of
           Inl e \<Rightarrow> Inl e
         | Inr (conn', stdin') \<Rightarrow> Inr (close (commit conn'), stdin'))"

text \<open>The file after \<open>UPDATE word_translations SET etymology = v WHERE arabic_text = a\<close>
  has been committed.\<close>

definition with_etymology_for :: "ustr option \<Rightarrow> ustr option \<Rightarrow> database \<Rightarrow> database" where
  "with_etymology_for a v db =
     db\<lparr>word_translations :=
          map (\<lambda>r. if has_text a r then r\<lparr>etymology := v\<rparr> else r) (word_translations db)\<rparr>"

subsection \<open>\<open>show_stats\<close>\<close>

text \<open>
  The four counts:
  \<^verbatim>\<open>
  SELECT COUNT(*) FROM word_translations
  SELECT COUNT(*) FROM word_translations WHERE etymology IS NOT NULL AND etymology != ''
  SELECT COUNT(DISTINCT arabic_text) FROM word_translations
  SELECT COUNT(DISTINCT arabic_text) FROM word_translations
     WHERE etymology IS NOT NULL AND etymology != ''
  \<close>
  \<open>COUNT(DISTINCT c)\<close> counts the different values of \<open>c\<close> that are not \<open>NULL\<close>.
\<close>

definition count_distinct_text :: "word_row list \<Rightarrow> nat" where
  "count_distinct_text rows = length (remdups (List.map_filter arabic_text rows))"

definition nonempty_etymology :: "word_row \<Rightarrow> bool" where
  "nonempty_etymology r \<longleftrightarrow> etymology r \<noteq> None \<and> etymology r \<noteq> Some []"

text \<open>
  The lines that are printed, each with the numbers it shows. A percentage is
  \<open>100*count/denominator\<close>, a true division; the model keeps the exact quotient and leaves
  out the rounding to a float and to one decimal.
  \<^verbatim>\<open>
  print(f"Total word entries: {total}")
  print(f"Unique words: {unique_words}")
  print(f"Entries with etymology: {with_etymology} ({100*with_etymology/total:.1f}%)")
  print(f"Unique words with etymology: {unique_with_etymology} ({100*unique_with_etymology/unique_words:.1f}%)")
  \<close>
\<close>

datatype stats_line =
    Total_word_entries nat
  | Unique_words nat
  | Entries_with_etymology nat rat
  | Unique_words_with_etymology nat rat

text \<open>\<open>a/b\<close> on integers raises \<open>ZeroDivisionError\<close> for \<open>b = 0\<close>.\<close>

definition true_div :: "nat \<Rightarrow> nat \<Rightarrow> py_error + rat" where
  "true_div a b = (if b = 0 then Inl ZeroDivisionError else Inr (of_nat a / of_nat b))"

text \<open>The lines printed, and the exception that ended the function, if one did.\<close>

definition show_stats :: "database \<Rightarrow> stats_line list \<times> py_error option" where
  "show_stats db =
     (let rows = word_translations db;
          total = length rows;
          with_etymology = length (filter nonempty_etymology rows);
          unique_words = count_distinct_text rows;
          unique_with_etymology = count_distinct_text (filter nonempty_etymology rows);
          out = [Total_word_entries total, Unique_words unique_words]
      in case true_div (100 * with_etymology) total of
           Inl e \<Rightarrow> (out, Some e)
         | Inr p1 \<Rightarrow>
             (case true_div (100 * unique_with_etymology) unique_words of
                Inl e \<Rightarrow> (out @ [Entries_with_etymology with_etymology p1], Some e)
              | Inr p2 \<Rightarrow>
                  (out @ [Entries_with_etymology with_etymology p1,
                          Unique_words_with_etymology unique_with_etymology p2], None)))"

text \<open>The percentages among the printed lines.\<close>

fun percentages :: "stats_line list \<Rightarrow> rat list" where
  "percentages [] = []"
| "percentages (Entries_with_etymology n p # ls) = p # percentages ls"
| "percentages (Unique_words_with_etymology n p # ls) = p # percentages ls"
| "percentages (l # ls) = percentages ls"

definition empty_db :: database where
  "empty_db = \<lparr>word_translations = [], root_meanings = [], root_meanings_seq = 0\<rparr>"

section \<open>Root meanings seeder: \<open>populate_root_meanings.py\<close>\<close>

text \<open>
  An entry of the catalog is a tuple \<open>(root, primary_meaning, extended_meaning,
  quran_usage, notes)\<close> of strings, any of which may be \<open>None\<close> in Python.
\<close>

type_synonym catalog_entry =
  "ustr option \<times> ustr option \<times> ustr option \<times> ustr option \<times> ustr option"

text \<open>
  \<^verbatim>\<open>
  INSERT OR REPLACE INTO root_meanings
  (root, primary_meaning, extended_meaning, quran_usage, notes) VALUES (?, ?, ?, ?, ?)
  \<close>
  A \<open>NULL\<close> for one of the two \<open>NOT NULL\<close> columns is refused (\<open>IntegrityError\<close>; they have
  no default that \<open>REPLACE\<close> could use). Otherwise the rows that hold the same \<open>root\<close> are
  deleted, and the new row is added with the next \<open>id\<close>: one more than the largest that
  the table has ever used.
\<close>

definition next_id :: "database \<Rightarrow> int" where
  "next_id db = Max (set (root_meanings_seq db # map rm_id (root_meanings db))) + 1"

definition insert_or_replace :: "connection \<Rightarrow> catalog_entry \<Rightarrow> py_error + connection" where
  "insert_or_replace conn entry =
     (case entry of
        (Some rt, Some primary, extended, usage, nts) \<Rightarrow>
          (let db = txn conn;
               new_id = next_id db;
               kept = filter (\<lambda>r. root_col r \<noteq> rt) (root_meanings db);
               new_row = \<lparr>rm_id = new_id, root_col = rt, primary_meaning = primary,
                          extended_meaning = extended, quran_usage = usage, notes_col = nts\<rparr>
           in Inr (conn\<lparr>txn := db\<lparr>root_meanings := kept @ [new_row],
                                     root_meanings_seq := new_id\<rparr>\<rparr>))
      | _ \<Rightarrow> Inl IntegrityError)"

text \<open>
  \<^verbatim>\<open>
  inserted = 0
  for root, primary, extended, quran_usage, notes in ROOT_MEANINGS:
      try:
          cursor.execute(...)
          inserted += 1
      except Exception as e:
          print(f"Error inserting {root}: {e}")
  conn.commit()
  \<close>
\<close>

fun insert_entries :: "catalog_entry list \<Rightarrow> connection \<times> nat \<Rightarrow> connection \<times> nat" where
  "insert_entries [] st = st"
| "insert_entries (entry # rest) (conn, inserted) =
     (case insert_or_replace conn entry of
        Inr conn' \<Rightarrow> insert_entries rest (conn', inserted + 1)
      | Inl e \<Rightarrow> insert_entries rest (conn, inserted))"

text \<open>The seeder over a catalog: the file after the run and the count that is printed.\<close>

definition populate_catalog :: "catalog_entry list \<Rightarrow> database \<Rightarrow> database \<times> nat" where
  "populate_catalog catalog db =
     (let (conn, inserted) = insert_entries catalog (connect db, 0)
      in (close (commit conn), inserted))"

text \<open>What a row holds besides its \<open>id\<close>.\<close>

definition row_content :: "root_meaning \<Rightarrow> ustr \<times> ustr \<times> ustr option \<times> ustr option \<times> ustr option" where
  "row_content r =
     (root_col r, primary_meaning r, extended_meaning r, quran_usage r, notes_col r)"

text \<open>The entries that \<open>INSERT OR REPLACE\<close> accepts.\<close>

definition accepted :: "catalog_entry \<Rightarrow> bool" where
  "accepted entry \<longleftrightarrow> fst entry \<noteq> None \<and> fst (snd entry) \<noteq> None"

subsection \<open>The catalog \<open>ROOT_MEANINGS\<close>\<close>

text \<open>The twenty entries of the script, in its order; the roots are three Arabic letters joined
  by dashes, written as code points.\<close>

definition ROOT_MEANINGS :: "catalog_entry list" where
  "ROOT_MEANINGS =
  [ (Some [1603, 45, 1601, 45, 1585],
    Some (ascii ''to cover, to conceal, to hide''),
    Some (ascii ''Originally meant to cover something, like a farmer covering seeds with soil. Also means to be ungrateful (covering blessings).''),
    Some (ascii ''In the Quran, refers to rejecting or concealing the truth of Allah's signs. A kafir is one who 'covers' or denies the evident truth.''),
    Some (ascii ''In classical Arabic, a farmer was also called 'kafir' because he covers seeds. Night is called 'kafir' because it covers the day.'')),
   (Some [1585, 45, 1581, 45, 1605],
    Some (ascii ''mercy, compassion, womb''),
    Some (ascii ''The root connects mercy with the womb (rahim), suggesting that divine mercy is like a mother's love - nurturing, protective, and unconditional.''),
    Some (ascii ''Allah's names Al-Rahman and Al-Rahim both derive from this root. Rahman indicates all-encompassing mercy, Rahim indicates specific mercy for believers.''),
    Some (ascii ''The connection between 'womb' and 'mercy' shows how Arabic roots carry deep semantic relationships.'')),
   (Some [1587, 45, 1605, 45, 1608],
    Some (ascii ''to be high, to rise, name, sky''),
    Some (ascii ''Connects the concepts of elevation, naming, and the heavens. A name (ism) elevates and distinguishes something.''),
    Some (ascii ''Used for sky (sama'), names (ism), and elevation. 'Bismillah' uses this root - beginning with Allah's name that is most elevated.''),
    None),
   (Some [1593, 45, 1604, 45, 1605],
    Some (ascii ''to know, knowledge, sign, world''),
    Some (ascii ''Encompasses knowing, teaching, signs/marks, and the world (which is a sign of the Creator).''),
    Some (ascii ''Al-Alim (The All-Knowing) is one of Allah's names. 'Alameen' (worlds/universe) shares this root - the creation is a sign pointing to knowledge of the Creator.''),
    Some (ascii ''The word 'ulama' (scholars) and 'alam' (world/flag/sign) all share this root.'')),
   (Some [1581, 45, 1605, 45, 1583],
    Some (ascii ''to praise, to thank, to commend''),
    Some (ascii ''Praise that comes from recognizing inherent goodness and beauty, not just receiving benefit.''),
    Some (ascii ''Al-Hamdulillah (all praise is for Allah) opens Surah Al-Fatihah. Muhammad and Ahmad (names of the Prophet) derive from this root.''),
    Some (ascii ''Unlike 'shukr' (gratitude for receiving), 'hamd' is praise for inherent qualities.'')),
   (Some [1571, 45, 1604, 45, 1607],
    Some (ascii ''deity, god, to worship, to be bewildered''),
    Some (ascii ''Originally implied being bewildered or seeking refuge, evolving to mean the one worthy of worship.''),
    Some (ascii ''Allah is the proper name of God, combining 'al' (the) with 'ilah' (deity) - The One True God.''),
    Some (ascii ''The root suggests that humans naturally turn to a higher power in times of need.'')),
   (Some [1589, 45, 1604, 45, 1608],
    Some (ascii ''prayer, connection, supplication''),
    Some (ascii ''Implies a close connection and turning towards. The physical movements of salah reflect this turning and connection.''),
    Some (ascii ''Salah is not just ritual prayer but a direct connection with Allah. The word also means blessings (as in 'salawat' upon the Prophet).''),
    None),
   (Some [1593, 45, 1576, 45, 1583],
    Some (ascii ''to worship, to serve, servant, slave''),
    Some (ascii ''Complete submission and service. A slave has no will against their master's will.''),
    Some (ascii ''Ibadah (worship) means complete submission to Allah. 'Abd' (servant) is the highest title - Abdullah means 'servant of Allah'.''),
    Some (ascii ''True freedom in Islam comes through being a slave only to Allah, not to desires or other creations.'')),
   (Some [1607, 45, 1583, 45, 1610],
    Some (ascii ''to guide, guidance, gift''),
    Some (ascii ''Leading someone gently to their destination. Also means a gift (something you guide towards someone).''),
    Some (ascii ''Al-Hadi is one of Allah's names. 'Ihdina al-sirat al-mustaqim' - Guide us to the straight path.''),
    Some (ascii ''Hidayah (guidance) is considered the greatest gift from Allah.'')),
   (Some [1602, 45, 1585, 45, 1569],
    Some (ascii ''to read, to recite, to gather''),
    Some (ascii ''Originally meant to gather or collect. Recitation gathers letters into words into meanings.''),
    Some (ascii ''The Quran literally means 'the recitation' or 'that which is recited'. The first revelation was 'Iqra' - Read/Recite!''),
    None),
   (Some [1571, 45, 1605, 45, 1606],
    Some (ascii ''to be safe, security, faith, trust''),
    Some (ascii ''Safety, security, and trust are interconnected. Faith (iman) provides inner security.''),
    Some (ascii ''Iman (faith) provides security for the heart. A mu'min (believer) is one who has inner peace through faith. Amen comes from this root.''),
    Some (ascii ''The connection between faith and security shows that true peace comes from trust in Allah.'')),
   (Some [1580, 45, 1606, 45, 1606],
    Some (ascii ''to cover, to hide, to be concealed''),
    Some (ascii ''Anything hidden or concealed. Gardens hide what's inside with their foliage.''),
    Some (ascii ''Jinn are hidden beings. Jannah (paradise) is a hidden garden. Janin (fetus) is hidden in the womb. Junun (madness) is when reason is hidden.''),
    Some (ascii ''Many seemingly different words share this root through the concept of being hidden.'')),
   (Some [1606, 45, 1608, 45, 1585],
    Some (ascii ''light, illumination, to enlighten''),
    Some (ascii ''Physical and spiritual light. Knowledge and guidance are described as light.''),
    Some (ascii ''Allah is described as the Light of the heavens and earth (Ayat al-Nur). The Quran is called a 'light' that guides from darkness.''),
    None),
   (Some [1592, 45, 1604, 45, 1605],
    Some (ascii ''darkness, injustice, oppression, to wrong''),
    Some (ascii ''Darkness and injustice share a root - injustice obscures the light of truth and fairness.''),
    Some (ascii ''Zulm (oppression/injustice) is putting something in the wrong place. Zulumat (darknesses) is the opposite of nur (light).''),
    Some (ascii ''Shirk (associating partners with Allah) is called the greatest zulm because it misplaces worship.'')),
   (Some [1588, 45, 1603, 45, 1585],
    Some (ascii ''to thank, gratitude, to appreciate''),
    Some (ascii ''Recognizing and acknowledging blessings received. Implies action in response to blessings.''),
    Some (ascii ''Ash-Shakur (The Most Appreciative) is one of Allah's names - He appreciates even small good deeds. Shukr is responding to blessings with gratitude.''),
    Some (ascii ''Different from hamd (praise) - shukr is specifically gratitude for blessings received.'')),
   (Some [1578, 45, 1608, 45, 1576],
    Some (ascii ''to return, to repent, to turn back''),
    Some (ascii ''Repentance literally means 'returning' to Allah. Implies a journey away and coming back.''),
    Some (ascii ''At-Tawwab (The Accepting of Repentance) is one of Allah's names. Tawbah is returning to Allah after straying.''),
    Some (ascii ''The door of tawbah is always open - one can always return.'')),
   (Some [1584, 45, 1603, 45, 1585],
    Some (ascii ''to remember, to mention, male''),
    Some (ascii ''Remembrance, mention, and masculinity share this root. Dhikr keeps something present in the mind.''),
    Some (ascii ''Dhikr (remembrance of Allah) is one of the most emphasized acts of worship. The Quran itself is called 'Al-Dhikr'.''),
    None),
   (Some [1601, 45, 1578, 45, 1581],
    Some (ascii ''to open, victory, conquest, to begin''),
    Some (ascii ''Opening can be physical (door) or abstract (victory, beginning). Fatiha opens the Quran.''),
    Some (ascii ''Al-Fattah (The Opener) is one of Allah's names. Surah Al-Fatiha 'opens' the Quran. Fath also means victory (Surah Al-Fath).''),
    None),
   (Some [1587, 45, 1604, 45, 1605],
    Some (ascii ''peace, safety, submission, soundness''),
    Some (ascii ''Peace comes through submission. Islam means submission (to Allah). Muslim is one who submits. Salam means peace.''),
    Some (ascii ''Islam, Muslim, and Salam all share this root. True peace (salam) comes through submission (islam) to Allah.''),
    Some (ascii ''The greeting 'Assalamu Alaikum' means 'peace be upon you' - wishing safety and submission to Allah's will.'')),
   (Some [1602, 45, 1604, 45, 1576],
    Some (ascii ''heart, to turn, to flip, to change''),
    Some (ascii ''The heart is called 'qalb' because it constantly turns and changes states.''),
    Some (ascii ''The heart (qalb) is the spiritual center that can turn towards or away from Allah. Seeking 'qalb saleem' (sound heart) is the goal.''),
    Some (ascii ''The Prophet (PBUH) would pray: 'O Turner of hearts, keep my heart firm on Your religion.'' @ [39]))]"

definition populate_root_meanings :: "database \<Rightarrow> database \<times> nat" where
  "populate_root_meanings db = populate_catalog ROOT_MEANINGS db"

text \<open>Three lines for the length checks: one with two fields, one with four fields whose
  location has two components, and one well-formed line tagged with REH HAH MEEM.\<close>

definition short_fields :: ustr where
  "short_fields = ascii ''1:1:1:1'' @ [tab] @ ascii ''ROOT:'' @ elm"

definition short_location :: ustr where
  "short_location =
     ascii ''1:1'' @ [tab] @ ascii ''x'' @ [tab] @ ascii ''N'' @ [tab] @ ascii ''ROOT:'' @ elm"

definition good_line :: ustr where
  "good_line =
     ascii ''1:1:1:1'' @ [tab] @ ascii ''x'' @ [tab] @ ascii ''N'' @ [tab] @ ascii ''ROOT:'' @ rhm"

section \<open>Example data\<close>

text \<open>A table of four words at \<open>1:1:1\<close> to \<open>1:1:4\<close> without etymology, the second and the fourth
  with the same Arabic text; a mapping with one coordinate of the table and one that the
  table lacks; and the table after the second word got the root REH - HAH - MEEM.\<close>

definition example_row :: "int \<Rightarrow> nat \<Rightarrow> word_row" where
  "example_row i c =
     \<lparr>row_id = i, sura = 1, ayah = 1, word_position = i, arabic_text = Some [c],
      translation = Some (ascii ''t''), transliteration = None, etymology = None\<rparr>"

definition example_db :: database where
  "example_db =
     \<lparr>word_translations =
        [example_row 1 1575, example_row 2 1576, example_row 3 1578, example_row 4 1576],
      root_meanings = [], root_meanings_seq = 0\<rparr>"

definition example_roots :: word_roots where
  "example_roots = [((1, 1, 2), Some r_h_m), ((9, 9, 9), Some r_h_m)]"

text \<open>A mapping whose key has the coordinate \<open>2^63\<close>, as \<open>parse_morphology\<close> yields it for a
  line located \<open>9223372036854775808:1:1\<close>.\<close>

definition unbound_line :: ustr where
  "unbound_line =
     ascii ''9223372036854775808:1:1:1'' @ [tab] @ ascii ''x'' @ [tab] @ ascii ''N'' @ [tab] @
       ascii ''ROOT:'' @ rhm"

definition unbound_roots :: word_roots where
  "unbound_roots = [((9223372036854775808, 1, 1), Some r_h_m)]"

definition example_db_second :: database where
  "example_db_second =
     \<lparr>word_translations =
        [example_row 1 1575, (example_row 2 1576)\<lparr>etymology := Some r_h_m\<rparr>,
         example_row 3 1578, example_row 4 1576],
      root_meanings = [], root_meanings_seq = 0\<rparr>"

text \<open>A table of three words without etymology of which the first two have the same Arabic
  text and different translations, and the table after both got the root.\<close>

definition shared_text_db :: database where
  "shared_text_db =
     \<lparr>word_translations =
        [example_row 1 1575, (example_row 2 1575)\<lparr>translation := Some (ascii ''u'')\<rparr>,
         example_row 3 1576],
      root_meanings = [], root_meanings_seq = 0\<rparr>"

definition shared_text_db_after :: database where
  "shared_text_db_after =
     \<lparr>word_translations =
        [(example_row 1 1575)\<lparr>etymology := Some r_h_m\<rparr>,
         (example_row 2 1575)\<lparr>translation := Some (ascii ''u''), etymology := Some r_h_m\<rparr>,
         example_row 3 1576],
      root_meanings = [], root_meanings_seq = 0\<rparr>"

text \<open>The rows of a CSV file that are not skipped, each as the pair of its \<open>arabic_text\<close> and
  its \<open>etymology\<close>: what a JSON mapping with the same content would hold.\<close>

definition csv_pairs :: "csv_row list \<Rightarrow> (ustr \<times> ustr option) list" where
  "csv_pairs reader =
     List.map_filter
       (\<lambda>row. if truthy (row_get row (ascii ''etymology''))
              then (case map_of row (ascii ''arabic_text'') of
                      Some (Some a) \<Rightarrow> Some (a, row_get row (ascii ''etymology''))
                    | _ \<Rightarrow> None)
              else None)
       reader"

text \<open>A CSV file of three rows: an empty etymology, a root for the second word, and a line
  that ends before its etymology field; and the table after both rows with the text of the
  second word got the root.\<close>

definition example_csv :: "csv_row list" where
  "example_csv =
     [[(ascii ''arabic_text'', Some [1575]), (ascii ''etymology'', Some [])],
      [(ascii ''arabic_text'', Some [1576]), (ascii ''etymology'', Some r_h_m)],
      [(ascii ''arabic_text'', Some [1578]), (ascii ''etymology'', None)]]"

definition example_db_both :: database where
  "example_db_both =
     \<lparr>word_translations =
        [example_row 1 1575, (example_row 2 1576)\<lparr>etymology := Some r_h_m\<rparr>,
         example_row 3 1578, (example_row 4 1576)\<lparr>etymology := Some r_h_m\<rparr>],
      root_meanings = [], root_meanings_seq = 0\<rparr>"

subsection \<open>Upsert by root\<close>

text \<open>
  The seeder in the words of its description: an upsert keyed on \<open>root\<close> over the contents
  of the rows (a row without its \<open>id\<close>). An entry with a root and a primary meaning replaces
  the content that has the same root, or is added when there is none; other entries are
  passed over. The run of the script is compared with this below.
\<close>

type_synonym content = "ustr \<times> ustr \<times> ustr option \<times> ustr option \<times> ustr option"

fun upsert_by_root :: "catalog_entry list \<Rightarrow> content list \<Rightarrow> content list" where
  "upsert_by_root [] cs = cs"
| "upsert_by_root ((Some rt, Some primary, rest) # entries) cs =
     upsert_by_root entries (filter (\<lambda>c. fst c \<noteq> rt) cs @ [(rt, primary, rest)])"
| "upsert_by_root (entry # entries) cs = upsert_by_root entries cs"

text \<open>The root keys of a catalog: the roots of the entries that are accepted, in order.\<close>

definition catalog_roots :: "catalog_entry list \<Rightarrow> ustr list" where
  "catalog_roots catalog = List.map_filter (\<lambda>e. if accepted e then fst e else None) catalog"

section \<open>Properties\<close>

subsection \<open>Joining\<close>

lemma length_join: "length (join sep r) = 2 * length r - 1"
  by (induction sep r rule: join.induct) auto

lemma join_eq_Nil [simp]: "join sep r = [] \<longleftrightarrow> r = []"
  by (induction sep r rule: join.induct) auto

lemma join_nth_even: "i < length r \<Longrightarrow> join sep r ! (2 * i) = r ! i"
proof (induction sep r arbitrary: i rule: join.induct)
  case (3 sep c d cs)
  then show ?case by (cases i) auto
qed auto

lemma join_nth_odd: "Suc i < length r \<Longrightarrow> join sep r ! (2 * i + 1) = sep"
proof (induction sep r arbitrary: i rule: join.induct)
  case (3 sep c d cs)
  then show ?case by (cases i) auto
qed auto

text \<open>
  C4. \<open>format_root\<close> returns no value for \<open>None\<close> and for the empty string, and never the
  empty string. For a root of \<open>n > 0\<close> letters the result has the \<open>n\<close> letters and \<open>n - 1\<close>
  further characters: the letters of the root stand at the even positions, in order, and a
  dash at every odd position, that is one dash between every two neighbouring letters. The
  three-letter root REH HAH MEEM becomes REH - HAH - MEEM.
\<close>

theorem format_root_dashes:
  "format_root None = None \<and> format_root (Some []) = None \<and> format_root x \<noteq> Some [] \<and>
   format_root (Some rhm) = Some r_h_m \<and>
   (r \<noteq> [] \<longrightarrow>
      (\<exists>s. format_root (Some r) = Some s \<and> length s = length r + (length r - 1) \<and>
           (\<forall>i < length r. s ! (2 * i) = r ! i) \<and>
           (\<forall>i. Suc i < length r \<longrightarrow> s ! (2 * i + 1) = dash)))"
proof -
  have "format_root x \<noteq> Some []"
    by (auto simp: format_root_def split: option.splits)
  moreover have "format_root (Some rhm) = Some r_h_m"
    by (simp add: format_root_def rhm_def r_h_m_def dash_def)
  moreover have "r \<noteq> [] \<longrightarrow>
      (\<exists>s. format_root (Some r) = Some s \<and> length s = length r + (length r - 1) \<and>
           (\<forall>i < length r. s ! (2 * i) = r ! i) \<and>
           (\<forall>i. Suc i < length r \<longrightarrow> s ! (2 * i + 1) = dash))"
    using join_nth_even [of _ r dash] join_nth_odd [of _ r dash]
    by (cases r) (simp_all add: format_root_def length_join)
  ultimately show ?thesis
    by (simp add: format_root_def)
qed

theorem format_root_dashes_witness:
  "format_root (Some [1593, 1604, 1605]) = Some [1593, 45, 1604, 45, 1605]"
proof -
  have "[1593, 1604, 1605] \<noteq> ([] :: ustr)" by simp
  with format_root_dashes [of undefined "[1593, 1604, 1605]"]
  obtain s where s: "format_root (Some [1593, 1604, 1605]) = Some s" by blast
  then show ?thesis by (simp add: format_root_def dash_def)
qed

subsection \<open>Parsing the morphology file\<close>

lemmas str_eval = ascii_def tab_def newline_def colon_def pipe_def hash_def dash_def
  underscore_def py_strip_def isspace_def startswith_def py_int_def int_space_def
  digit_value_def decimal_zeros_def max_str_digits_def root_match_at_def Let_def

text \<open>\<open>int\<close> on a few strings: Arabic-Indic digits, a sign and an underscore between Unicode
  spaces, a number of twenty digits; and, refused, a trailing separator U+001F, a doubled
  underscore, a superscript two and the empty string.\<close>

lemma py_int_examples:
  "py_int [1633, 1634] = Some 12"
  "py_int [8192, 45, 1637, 95, 48, 12288] = Some (- 50)"
  "py_int (ascii ''18446744073709551616'') = Some 18446744073709551616"
  "py_int [49, 31] = None"
  "py_int (ascii ''1__0'') = None"
  "py_int [178] = None"
  "py_int [] = None"
  by (simp_all add: str_eval)

lemma py_split_not_Nil [simp]: "py_split sep s \<noteq> []"
  by (induction s) (auto split: list.splits)

lemma root_match_at_nonempty: "root_match_at s = Some g \<Longrightarrow> g \<noteq> []"
  by (auto simp: root_match_at_def Let_def split: if_splits)

lemma re_search_root_nonempty: "re_search_root s = Some g \<Longrightarrow> g \<noteq> []"
  by (induction s) (auto split: option.splits dest: root_match_at_nonempty)

lemma root_tag_of_nonempty: "root_tag_of l = Some (k, rt) \<Longrightarrow> rt \<noteq> []"
  by (auto simp: root_tag_of_def split: if_splits option.splits dest: re_search_root_nonempty)

text \<open>The loop body, when it does not raise, adds what \<open>root_tag_of\<close> names, and only under
  a key that the dictionary does not have yet.\<close>

lemma parse_line_Inr:
  "parse_line wr l = Inr wr' \<Longrightarrow>
     wr' = (case root_tag_of l of
              None \<Rightarrow> wr
            | Some (k, rt) \<Rightarrow> if map_of wr k = None then wr @ [(k, format_root (Some rt))] else wr)"
  by (auto simp: parse_line_def root_tag_of_def Let_def split: if_splits option.splits)

lemma parse_line_too_short: "too_short l \<Longrightarrow> parse_line wr l = Inr wr"
  by (auto simp: parse_line_def too_short_def Let_def)

lemma parse_lines_filter_short:
  "parse_lines wr ls = parse_lines wr (filter (\<lambda>l. \<not> too_short l) ls)"
  by (induction ls arbitrary: wr) (auto simp: parse_line_too_short split: sum.splits)

lemma parse_line_ValueError:
  assumes "l \<noteq> []" "\<not> startswith l [hash]" "\<not> too_short l"
    and "py_int (py_split colon (py_split tab l ! 0) ! 0) = None \<or>
         py_int (py_split colon (py_split tab l ! 0) ! 1) = None \<or>
         py_int (py_split colon (py_split tab l ! 0) ! 2) = None"
  shows "parse_line wr l = Inl ValueError"
  using assms by (auto simp: parse_line_def too_short_def Let_def split: option.splits)



lemma parse_lines_values:
  "parse_lines wr ls = Inr wr' \<Longrightarrow> (k, v) \<in> set wr' \<Longrightarrow>
     (k, v) \<in> set wr \<or> (\<exists>rt. rt \<noteq> [] \<and> v = Some (join dash rt))"
proof (induction ls arbitrary: wr)
  case (Cons l ls)
  from Cons.prems obtain w1 where l: "parse_line wr l = Inr w1" and r: "parse_lines w1 ls = Inr wr'"
    by (auto split: sum.splits)
  from Cons.IH [OF r Cons.prems(2)] show ?case
    using parse_line_Inr [OF l]
    by (auto simp: format_root_def split: option.splits if_splits dest: root_tag_of_nonempty)
qed simp





text \<open>
  C3, as the code has it. A line with fewer than four tab-separated fields, or with a
  location of fewer than three colon-separated components, leaves the dictionary as it is
  and raises nothing, and the result of the whole parse is the result without those lines.
  A line that passes the two checks and has a location component (one of the first three)
  that \<open>int\<close> refuses is not skipped: the parse ends there with \<open>ValueError\<close>.
\<close>

theorem short_lines_skipped:
  "(too_short line \<longrightarrow> parse_line word_roots line = Inr word_roots) \<and>
   parse_lines word_roots lines = parse_lines word_roots (filter (\<lambda>l. \<not> too_short l) lines) \<and>
   (line \<noteq> [] \<and> \<not> startswith line [hash] \<and> \<not> too_short line \<and>
    (py_int (py_split colon (py_split tab line ! 0) ! 0) = None \<or>
     py_int (py_split colon (py_split tab line ! 0) ! 1) = None \<or>
     py_int (py_split colon (py_split tab line ! 0) ! 2) = None)
    \<longrightarrow> parse_lines word_roots (line # rest) = Inl ValueError)"
  using parse_line_too_short [of line word_roots] parse_lines_filter_short [of word_roots lines]
    parse_line_ValueError [of line word_roots]
  by auto

theorem short_lines_skipped_witness:
  "too_short short_fields \<and> too_short short_location \<and> \<not> too_short good_line \<and>
   parse_line [] short_fields = Inr [] \<and> parse_line [] short_location = Inr [] \<and>
   parse_lines [] [short_fields, good_line, short_location] = Inr [((1, 1, 1), Some r_h_m)] \<and>
   parse_lines [] [bad_location, good_line] = Inl ValueError"
proof -
  have a: "too_short short_fields"
    by (simp add: too_short_def short_fields_def elm_def str_eval)
  have b: "too_short short_location"
    by (simp add: too_short_def short_location_def elm_def str_eval)
  have c: "\<not> too_short good_line"
    by (simp add: too_short_def good_line_def rhm_def str_eval)
  have g: "parse_lines [] [good_line] = Inr [((1, 1, 1), Some r_h_m)]"
    by (simp add: good_line_def rhm_def r_h_m_def parse_line_def format_root_def str_eval)
  have d: "bad_location \<noteq> [] \<and> \<not> startswith bad_location [hash] \<and> \<not> too_short bad_location \<and>
      (py_int (py_split colon (py_split tab bad_location ! 0) ! 0) = None \<or>
       py_int (py_split colon (py_split tab bad_location ! 0) ! 1) = None \<or>
       py_int (py_split colon (py_split tab bad_location ! 0) ! 2) = None)"
    by (simp add: too_short_def bad_location_def rhm_def str_eval)
  have f: "filter (\<lambda>l. \<not> too_short l) [short_fields, good_line, short_location] = [good_line]"
    using a b c by simp
  note s1 = short_lines_skipped [of short_fields "[]" "[short_fields, good_line, short_location]", unfolded f g]
  note s2 = short_lines_skipped [of short_location "[]" "[]"]
  note s3 = short_lines_skipped [of bad_location "[]" "[]" "[good_line]"]
  show ?thesis
    using a b c s1 [THEN conjunct1, rule_format, OF a] s2 [THEN conjunct1, rule_format, OF b]
      s1 [THEN conjunct2, THEN conjunct1] s3 [THEN conjunct2, THEN conjunct2, rule_format, OF d]
    by blast
qed
theorem parse_morphology_bad_location: "parse_morphology bad_location = Inl ValueError"
  by (simp add: parse_morphology_def bad_location_def rhm_def parse_line_def str_eval)


subsection \<open>Updating by coordinate\<close>

lemmas db_eval = example_db_def example_row_def example_db_second_def example_roots_def
  connect_def commit_def close_def update_at_position_def update_by_text_def at_position_def
  has_text_def key_found_def sqlite_int_def Let_def

lemma at_position_etymology [simp]:
  "at_position s a w (r\<lparr>etymology := v\<rparr>) = at_position s a w r"
  by (simp add: at_position_def)

lemma key_found_map_etymology [simp]:
  "key_found (map (\<lambda>r. if P r then r\<lparr>etymology := v\<rparr> else r) rows) k = key_found rows k"
  by (induction rows) (auto simp: key_found_def)

lemma update_at_position_overflow:
  "\<not> sqlite_key (s, a, w) \<Longrightarrow> update_at_position conn v s a w = Inl OverflowError"
  by (auto simp: update_at_position_def sqlite_key_def)

lemma update_at_position_bound:
  "sqlite_key (s, a, w) \<Longrightarrow>
     update_at_position conn v s a w =
       Inr (conn\<lparr>txn := (txn conn)\<lparr>word_translations :=
              map (\<lambda>r. if at_position s a w r then r\<lparr>etymology := v\<rparr> else r)
                (word_translations (txn conn))\<rparr>\<rparr>,
            length (filter (at_position s a w) (word_translations (txn conn))))"
  by (simp add: update_at_position_def sqlite_key_def Let_def)

lemma rowcount_positive:
  "key_found rows (s, a, w) \<Longrightarrow> filter (at_position s a w) rows \<noteq> []"
  by (auto simp: key_found_def filter_empty_conv)

lemma update_at_position_not_found:
  assumes "sqlite_key (s, a, w)" "\<not> key_found (word_translations (txn conn)) (s, a, w)"
  shows "update_at_position conn v s a w = Inr (conn, 0)"
proof -
  from assms(2) have n: "\<And>r. r \<in> set (word_translations (txn conn)) \<Longrightarrow> \<not> at_position s a w r"
    by (auto simp: key_found_def)
  then have "map (\<lambda>r. if at_position s a w r then r\<lparr>etymology := v\<rparr> else r) (word_translations (txn conn))
        = word_translations (txn conn)"
    by (simp add: map_idI)
  moreover from n have "filter (at_position s a w) (word_translations (txn conn)) = []"
    by (simp add: filter_empty_conv)
  ultimately show ?thesis
    by (simp add: update_at_position_bound [OF assms(1)])
qed

lemma update_rows_step_overflow:
  "\<not> sqlite_key (s, a, w) \<Longrightarrow>
     update_rows (((s, a, w), rt) # rest) (conn, updated, not_found) = Inl OverflowError"
  by (simp add: update_at_position_overflow)

lemma update_rows_step_not_found:
  "sqlite_key (s, a, w) \<Longrightarrow> \<not> key_found (word_translations (txn conn)) (s, a, w) \<Longrightarrow>
     update_rows (((s, a, w), rt) # rest) (conn, updated, not_found)
       = update_rows rest (conn, updated, not_found + 1)"
  by (simp add: update_at_position_not_found)

lemma update_rows_step_found:
  "sqlite_key (s, a, w) \<Longrightarrow> key_found (word_translations (txn conn)) (s, a, w) \<Longrightarrow>
     update_rows (((s, a, w), rt) # rest) (conn, updated, not_found)
       = update_rows rest
           (conn\<lparr>txn := (txn conn)\<lparr>word_translations :=
              map (\<lambda>r. if at_position s a w r then r\<lparr>etymology := rt\<rparr> else r)
                (word_translations (txn conn))\<rparr>\<rparr>, updated + 1, not_found)"
  by (simp add: update_at_position_bound rowcount_positive)

lemma update_rows_counts:
  "(\<And>k. key_found (word_translations (txn conn)) k = F k) \<Longrightarrow>
   (\<And>e. e \<in> set wr \<Longrightarrow> sqlite_key (fst e)) \<Longrightarrow>
   \<exists>conn'. update_rows wr (conn, u, n)
              = Inr (conn', u + length (filter F (map fst wr)),
                     n + length (filter (\<lambda>k. \<not> F k) (map fst wr))) \<and>
           update_rows (filter (\<lambda>e. F (fst e)) wr) (conn, u0, n0)
              = Inr (conn', u0 + length (filter F (map fst wr)), n0) \<and>
           disk conn' = disk conn"
proof (induction wr arbitrary: conn u n u0 n0)
  case Nil
  then show ?case by simp
next
  case (Cons e wr)
  obtain s a w rt where e: "e = ((s, a, w), rt)" by (cases e) auto
  have k: "sqlite_key (s, a, w)" using Cons.prems(2) [of e] by (simp add: e)
  have rest: "\<And>e. e \<in> set wr \<Longrightarrow> sqlite_key (fst e)" using Cons.prems(2) by simp
  show ?case
  proof (cases "F (s, a, w)")
    case True
    then have f: "key_found (word_translations (txn conn)) (s, a, w)" by (simp add: Cons.prems(1))
    let ?c = "conn\<lparr>txn := (txn conn)\<lparr>word_translations :=
              map (\<lambda>r. if at_position s a w r then r\<lparr>etymology := rt\<rparr> else r)
                (word_translations (txn conn))\<rparr>\<rparr>"
    have kf: "\<And>k. key_found (word_translations (txn ?c)) k = F k"
      by (simp add: Cons.prems(1))
    from Cons.IH [OF kf rest, of "u + 1" n "u0 + 1" n0] obtain conn' where
      a: "update_rows wr (?c, u + 1, n)
              = Inr (conn', u + 1 + length (filter F (map fst wr)),
                     n + length (filter (\<lambda>k. \<not> F k) (map fst wr)))"
      and b: "update_rows (filter (\<lambda>e. F (fst e)) wr) (?c, u0 + 1, n0)
              = Inr (conn', u0 + 1 + length (filter F (map fst wr)), n0)"
      and c: "disk conn' = disk ?c"
      by blast
    have "update_rows (e # wr) (conn, u, n)
        = Inr (conn', u + length (filter F (map fst (e # wr))),
                     n + length (filter (\<lambda>k. \<not> F k) (map fst (e # wr))))"
      unfolding e update_rows_step_found [OF k f] using a True by simp
    moreover have "update_rows (filter (\<lambda>e. F (fst e)) (e # wr)) (conn, u0, n0)
        = Inr (conn', u0 + length (filter F (map fst (e # wr))), n0)"
    proof -
      have "filter (\<lambda>e. F (fst e)) (e # wr) = ((s, a, w), rt) # filter (\<lambda>e. F (fst e)) wr"
        using True by (simp add: e)
      then show ?thesis
        unfolding e using b True by (simp only: update_rows_step_found [OF k f]) simp
    qed
    moreover have "disk conn' = disk conn" using c by simp
    ultimately show ?thesis by blast
  next
    case False
    then have f: "\<not> key_found (word_translations (txn conn)) (s, a, w)" by (simp add: Cons.prems(1))
    from Cons.IH [OF Cons.prems(1) rest, of u "n + 1" u0 n0] obtain conn' where
      a: "update_rows wr (conn, u, n + 1)
              = Inr (conn', u + length (filter F (map fst wr)),
                     n + 1 + length (filter (\<lambda>k. \<not> F k) (map fst wr)))"
      and b: "update_rows (filter (\<lambda>e. F (fst e)) wr) (conn, u0, n0)
              = Inr (conn', u0 + length (filter F (map fst wr)), n0)"
      and c: "disk conn' = disk conn"
      by blast
    have "update_rows (e # wr) (conn, u, n)
        = Inr (conn', u + length (filter F (map fst (e # wr))),
                     n + length (filter (\<lambda>k. \<not> F k) (map fst (e # wr))))"
      unfolding e update_rows_step_not_found [OF k f] using a False by simp
    moreover have "update_rows (filter (\<lambda>e. F (fst e)) (e # wr)) (conn, u0, n0)
        = Inr (conn', u0 + length (filter F (map fst (e # wr))), n0)"
      using b False by (simp add: e)
    ultimately show ?thesis using c by blast
  qed
qed

lemma update_rows_overflow:
  "\<exists>e \<in> set wr. \<not> sqlite_key (fst e) \<Longrightarrow> update_rows wr st = Inl OverflowError"
proof (induction wr arbitrary: st)
  case (Cons e wr)
  obtain s a w rt where e: "e = ((s, a, w), rt)" by (cases e) auto
  obtain conn u n where st: "st = (conn, u, n)" by (cases st)
  show ?case
  proof (cases "sqlite_key (s, a, w)")
    case True
    with Cons.prems have "\<exists>e \<in> set wr. \<not> sqlite_key (fst e)" by (auto simp: e)
    note ih = Cons.IH [OF this]
    show ?thesis
    proof (cases "key_found (word_translations (txn conn)) (s, a, w)")
      case f: True
      show ?thesis unfolding e st by (simp only: update_rows_step_found [OF True f] ih)
    next
      case f: False
      show ?thesis unfolding e st by (simp only: update_rows_step_not_found [OF True f] ih)
    qed
  next
    case False
    then show ?thesis unfolding e st by (rule update_rows_step_overflow)
  qed
qed simp

lemma update_rows_etymology:
  assumes "\<And>k v. (k, v) \<in> set wr \<Longrightarrow> P v"
    and "update_rows wr (conn, u, n) = Inr (conn', u', n')"
    and "rows = word_translations (txn conn)" "rows' = word_translations (txn conn')"
  shows "length rows' = length rows \<and>
         (\<forall>i<length rows. etymology (rows' ! i) = etymology (rows ! i) \<or> P (etymology (rows' ! i)))"
  using assms
proof (induction wr arbitrary: conn u n rows)
  case Nil
  then show ?case by simp
next
  case (Cons e wr)
  obtain s a w rt where e: "e = ((s, a, w), rt)" by (cases e) auto
  have P: "P rt" using Cons.prems(1) [of "(s, a, w)" rt] by (simp add: e)
  have k: "sqlite_key (s, a, w)"
    using Cons.prems(2) update_rows_step_overflow [of s a w rt wr conn u n]
    by (cases "sqlite_key (s, a, w)") (auto simp: e simp del: update_rows.simps)
  let ?c = "conn\<lparr>txn := (txn conn)\<lparr>word_translations :=
              map (\<lambda>r. if at_position s a w r then r\<lparr>etymology := rt\<rparr> else r)
                (word_translations (txn conn))\<rparr>\<rparr>"
  let ?mid = "map (\<lambda>r. if at_position s a w r then r\<lparr>etymology := rt\<rparr> else r) rows"
  obtain c1 u1 n1 where step: "update_rows wr (c1, u1, n1) = Inr (conn', u', n')"
    and mid: "word_translations (txn c1) = ?mid"
  proof (cases "key_found (word_translations (txn conn)) (s, a, w)")
    case True
    from Cons.prems(2) have "update_rows wr (?c, u + 1, n) = Inr (conn', u', n')"
      unfolding e update_rows_step_found [OF k True] .
    moreover have "word_translations (txn ?c) = ?mid" by (simp add: Cons.prems(3))
    ultimately show ?thesis by (rule that)
  next
    case False
    from Cons.prems(2) have "update_rows wr (conn, u, n + 1) = Inr (conn', u', n')"
      unfolding e update_rows_step_not_found [OF k False] .
    moreover have "word_translations (txn conn) = ?mid"
    proof -
      from False have "\<And>r. r \<in> set rows \<Longrightarrow> \<not> at_position s a w r"
        by (auto simp: key_found_def Cons.prems(3))
      then show ?thesis by (simp add: Cons.prems(3) map_idI)
    qed
    ultimately show ?thesis by (rule that)
  qed
  have ih: "length rows' = length ?mid \<and>
         (\<forall>i<length ?mid. etymology (rows' ! i) = etymology (?mid ! i) \<or> P (etymology (rows' ! i)))"
    by (rule Cons.IH [OF _ step mid [symmetric] Cons.prems(4)]) (use Cons.prems(1) in auto)
  show ?case
  proof (intro conjI allI impI)
    show "length rows' = length rows" using ih by simp
  next
    fix i assume i: "i < length rows"
    with ih have "etymology (rows' ! i) = etymology (?mid ! i) \<or> P (etymology (rows' ! i))"
      by simp
    moreover have "etymology (?mid ! i) = etymology (rows ! i) \<or> etymology (?mid ! i) = rt"
      using i by simp
    ultimately show "etymology (rows' ! i) = etymology (rows ! i) \<or> P (etymology (rows' ! i))"
      using P by auto
  qed
qed

text \<open>
  C5, as the code has it. One pass of the loop of \<open>update_database\<close>, for an entry whose
  coordinates are 64-bit integers: if its key is the coordinate of no row, the loop goes
  on with the same connection (the table as it was), the same \<open>updated\<close> and
  \<open>not_found + 1\<close>; if its key is the coordinate of some row, it goes on with \<open>updated + 1\<close>
  and the same \<open>not_found\<close>. An entry with a coordinate outside 64 bits ends the loop with
  \<open>OverflowError\<close>. For the whole call: when every key can be bound, \<open>updated\<close> is the number
  of entries whose key is in the table, \<open>not_found\<close> the number of the others, and the file
  is the one that the entries with a key in the table alone give; otherwise the call
  raises \<open>OverflowError\<close> and the file is as it was.
\<close>

theorem update_database_counts:
  "(sqlite_key (s, a, w) \<and> \<not> key_found (word_translations (txn conn)) (s, a, w) \<longrightarrow>
      update_rows (((s, a, w), rt) # rest) (conn, updated, not_found)
        = update_rows rest (conn, updated, not_found + 1)) \<and>
   (sqlite_key (s, a, w) \<and> key_found (word_translations (txn conn)) (s, a, w) \<longrightarrow>
      (\<exists>conn'. update_at_position conn rt s a w
                 = Inr (conn', length (filter (at_position s a w) (word_translations (txn conn)))) \<and>
               update_rows (((s, a, w), rt) # rest) (conn, updated, not_found)
                 = update_rows rest (conn', updated + 1, not_found))) \<and>
   (\<not> sqlite_key (s, a, w) \<longrightarrow>
      update_rows (((s, a, w), rt) # rest) (conn, updated, not_found) = Inl OverflowError) \<and>
   ((\<forall>e \<in> set word_roots. sqlite_key (fst e)) \<longrightarrow>
      (\<exists>db'. update_database word_roots db =
               (db', Inr (length (filter (key_found (word_translations db)) (map fst word_roots)),
                          length (filter (\<lambda>k. \<not> key_found (word_translations db) k)
                                    (map fst word_roots)))) \<and>
             update_database
                 (filter (\<lambda>e. key_found (word_translations db) (fst e)) word_roots) db =
               (db', Inr (length (filter (key_found (word_translations db)) (map fst word_roots)),
                          0)))) \<and>
   (\<not> (\<forall>e \<in> set word_roots. sqlite_key (fst e)) \<longrightarrow>
      update_database word_roots db = (db, Inl OverflowError))"
proof (intro conjI impI)
  assume "sqlite_key (s, a, w) \<and> \<not> key_found (word_translations (txn conn)) (s, a, w)"
  then show "update_rows (((s, a, w), rt) # rest) (conn, updated, not_found)
        = update_rows rest (conn, updated, not_found + 1)"
    using update_rows_step_not_found by blast
next
  assume "sqlite_key (s, a, w) \<and> key_found (word_translations (txn conn)) (s, a, w)"
  then show "\<exists>conn'. update_at_position conn rt s a w
                 = Inr (conn', length (filter (at_position s a w) (word_translations (txn conn)))) \<and>
               update_rows (((s, a, w), rt) # rest) (conn, updated, not_found)
                 = update_rows rest (conn', updated + 1, not_found)"
    using update_rows_step_found [of s a w conn rt rest updated not_found]
      update_at_position_bound [of s a w conn rt]
    by blast
next
  assume "\<not> sqlite_key (s, a, w)"
  then show "update_rows (((s, a, w), rt) # rest) (conn, updated, not_found) = Inl OverflowError"
    by (rule update_rows_step_overflow)
next
  assume b: "\<forall>e \<in> set word_roots. sqlite_key (fst e)"
  let ?F = "key_found (word_translations db)"
  have k: "\<And>k. key_found (word_translations (txn (connect db))) k = ?F k"
    by (simp add: connect_def)
  from update_rows_counts [of "connect db" ?F word_roots 0 0 0 0, OF k] b
  obtain conn' where
    x: "update_rows word_roots (connect db, 0, 0)
          = Inr (conn', length (filter ?F (map fst word_roots)),
                 length (filter (\<lambda>k. \<not> ?F k) (map fst word_roots)))"
    and y: "update_rows (filter (\<lambda>e. ?F (fst e)) word_roots) (connect db, 0, 0)
          = Inr (conn', length (filter ?F (map fst word_roots)), 0)"
    by auto
  show "\<exists>db'. update_database word_roots db =
               (db', Inr (length (filter ?F (map fst word_roots)),
                          length (filter (\<lambda>k. \<not> ?F k) (map fst word_roots)))) \<and>
             update_database (filter (\<lambda>e. ?F (fst e)) word_roots) db =
               (db', Inr (length (filter ?F (map fst word_roots)), 0))"
    by (simp add: update_database_def x y)
next
  assume "\<not> (\<forall>e \<in> set word_roots. sqlite_key (fst e))"
  then have "\<exists>e \<in> set word_roots. \<not> sqlite_key (fst e)" by blast
  from update_rows_overflow [OF this]
  show "update_database word_roots db = (db, Inl OverflowError)"
    by (simp add: update_database_def)
qed

theorem update_database_counts_witness:
  "sqlite_key (1, 1, 2) \<and> sqlite_key (9, 9, 9) \<and> \<not> sqlite_key (9223372036854775808, 1, 1) \<and>
   key_found (word_translations example_db) (1, 1, 2) \<and>
   \<not> key_found (word_translations example_db) (9, 9, 9) \<and>
   update_database example_roots example_db = (example_db_second, Inr (1, 1)) \<and>
   update_database [((1, 1, 2), Some r_h_m)] example_db = (example_db_second, Inr (1, 0)) \<and>
   update_rows [((9, 9, 9), Some r_h_m)] (connect example_db, 0, 0)
     = Inr (connect example_db, 0, 1) \<and>
   update_rows unbound_roots (connect example_db, 0, 0) = Inl OverflowError \<and>
   update_database (example_roots @ unbound_roots) example_db = (example_db, Inl OverflowError)"
proof -
  have k1: "sqlite_key (1, 1, 2)" and k2: "sqlite_key (9, 9, 9)"
    and k3: "\<not> sqlite_key (9223372036854775808, 1, 1)"
    by (simp_all add: sqlite_key_def sqlite_int_def)
  have a: "key_found (word_translations example_db) (1, 1, 2)"
    by (simp add: db_eval)
  have b: "\<not> key_found (word_translations example_db) (9, 9, 9)"
    by (simp add: db_eval)
  have b': "sqlite_key (9, 9, 9) \<and> \<not> key_found (word_translations (txn (connect example_db))) (9, 9, 9)"
    using k2 by (simp add: db_eval)
  have all: "\<forall>e \<in> set example_roots. sqlite_key (fst e)"
    by (simp add: example_roots_def sqlite_key_def sqlite_int_def)
  have some: "\<not> (\<forall>e \<in> set (example_roots @ unbound_roots). sqlite_key (fst e))"
    by (simp add: example_roots_def unbound_roots_def sqlite_key_def sqlite_int_def)
  have f: "filter (\<lambda>e. key_found (word_translations example_db) (fst e)) example_roots
      = [((1, 1, 2), Some r_h_m)]"
    by (simp add: db_eval)
  have c: "length (filter (key_found (word_translations example_db)) (map fst example_roots)) = 1"
    "length (filter (\<lambda>k. \<not> key_found (word_translations example_db) k) (map fst example_roots)) = 1"
    by (simp_all add: db_eval)
  have ev: "fst (update_database example_roots example_db) = example_db_second"
    by (simp add: update_database_def db_eval)
  note t = update_database_counts
  from t [of undefined undefined undefined undefined undefined undefined undefined undefined
      example_roots example_db, THEN conjunct2, THEN conjunct2, THEN conjunct2, THEN conjunct1,
      THEN mp, OF all, unfolded f c]
  obtain db' where d1: "update_database example_roots example_db = (db', Inr (1, 1))"
    and d2: "update_database [((1, 1, 2), Some r_h_m)] example_db = (db', Inr (1, 0))"
    by blast
  from d1 ev have "db' = example_db_second" by simp
  with d1 d2 have e1: "update_database example_roots example_db = (example_db_second, Inr (1, 1))"
    and e2: "update_database [((1, 1, 2), Some r_h_m)] example_db = (example_db_second, Inr (1, 0))"
    by simp_all
  have s1: "update_rows [((9, 9, 9), Some r_h_m)] (connect example_db, 0, 0)
      = Inr (connect example_db, 0, 1)"
    using t [of 9 9 9 "connect example_db" "Some r_h_m" "[]" 0 0, THEN conjunct1, THEN mp, OF b']
    by (simp only: update_rows.simps(1) add_0)
  have s3: "update_rows unbound_roots (connect example_db, 0, 0) = Inl OverflowError"
    unfolding unbound_roots_def
    by (rule t [of 9223372036854775808 1 1 _ _ _ _ _ undefined undefined,
          THEN conjunct2, THEN conjunct2, THEN conjunct1, THEN mp, OF k3])
  have s4: "update_database (example_roots @ unbound_roots) example_db = (example_db, Inl OverflowError)"
    by (rule t [of undefined undefined undefined undefined undefined undefined undefined undefined
          "example_roots @ unbound_roots" example_db,
          THEN conjunct2, THEN conjunct2, THEN conjunct2, THEN conjunct2, THEN mp, OF some])
  show ?thesis
    using k1 k2 k3 a b e1 e2 s1 s3 s4 by (intro conjI)
qed

text \<open>A line located \<open>9223372036854775808:1:1\<close> parses to a key with the coordinate \<open>2^63\<close>.
  The key is the coordinate of no row, and the call neither counts it nor returns.\<close>

theorem update_database_unbound_key:
  "parse_morphology unbound_line = Inr unbound_roots \<and>
   \<not> key_found (word_translations example_db) (9223372036854775808, 1, 1) \<and>
   update_database unbound_roots example_db = (example_db, Inl OverflowError)"
proof -
  have "parse_morphology unbound_line = Inr unbound_roots"
    by (simp add: parse_morphology_def unbound_line_def unbound_roots_def rhm_def r_h_m_def
        parse_line_def format_root_def str_eval)
  moreover have "\<not> key_found (word_translations example_db) (9223372036854775808, 1, 1)"
    by (simp add: db_eval)
  moreover have "update_database unbound_roots example_db = (example_db, Inl OverflowError)"
    by (simp add: update_database_def unbound_roots_def db_eval)
  ultimately show ?thesis by (intro conjI)
qed

text \<open>
  C9. Every value of the mapping that \<open>parse_morphology\<close> returns is the dashed form of a
  non-empty root, so a non-empty string and never \<open>None\<close>. Hence \<open>update_database\<close> with
  that mapping leaves in every row either the etymology it had or a non-empty string.
\<close>

theorem importer_never_clears:
  assumes "parse_morphology data = Inr word_roots"
  shows "(\<forall>(k, v) \<in> set word_roots. \<exists>rt. rt \<noteq> [] \<and> v = Some (join dash rt) \<and> join dash rt \<noteq> []) \<and>
         (\<forall>db. length (word_translations (fst (update_database word_roots db)))
                 = length (word_translations db) \<and>
            (\<forall>i < length (word_translations db).
               etymology (word_translations (fst (update_database word_roots db)) ! i)
                 = etymology (word_translations db ! i) \<or>
               (\<exists>s. s \<noteq> [] \<and>
                 etymology (word_translations (fst (update_database word_roots db)) ! i) = Some s)))"
proof -
  from assms have p: "parse_lines [] (py_split newline (py_strip data)) = Inr word_roots"
    by (simp add: parse_morphology_def)
  have v: "\<exists>rt. rt \<noteq> [] \<and> v = Some (join dash rt)" if "(k, v) \<in> set word_roots" for k v
    using parse_lines_values [OF p that] by simp
  then have first: "\<forall>(k, v) \<in> set word_roots. \<exists>rt. rt \<noteq> [] \<and> v = Some (join dash rt) \<and> join dash rt \<noteq> []"
    by fastforce
  have second: "length (word_translations (fst (update_database word_roots db)))
                 = length (word_translations db) \<and>
            (\<forall>i < length (word_translations db).
               etymology (word_translations (fst (update_database word_roots db)) ! i)
                 = etymology (word_translations db ! i) \<or>
               (\<exists>s. s \<noteq> [] \<and>
                 etymology (word_translations (fst (update_database word_roots db)) ! i) = Some s))" for db
  proof (cases "update_rows word_roots (connect db, 0, 0)")
    case (Inl e)
    then have "fst (update_database word_roots db) = db"
      by (simp add: update_database_def)
    then show ?thesis by simp
  next
    case (Inr r)
    obtain conn' u' n' where r: "r = (conn', u', n')" by (cases r)
    have P: "\<exists>s. s \<noteq> [] \<and> v = Some s" if "(k, v) \<in> set word_roots" for k v
      using v [OF that] by auto
    have f: "fst (update_database word_roots db) = txn conn'"
      by (simp add: update_database_def Inr r commit_def close_def)
    have "word_translations db = word_translations (txn (connect db))"
      by (simp add: connect_def)
    from update_rows_etymology [of word_roots "\<lambda>v. \<exists>s. s \<noteq> [] \<and> v = Some s",
        OF P Inr [unfolded r] this refl]
    show ?thesis unfolding f .
  qed
  from first second show ?thesis by blast
qed

theorem importer_never_clears_witness:
  "parse_morphology two_segments = Inr [((1, 1, 1), Some r_h_m)] \<and>
   (\<exists>rt. rt \<noteq> [] \<and> Some r_h_m = Some (join dash rt) \<and> join dash rt \<noteq> []) \<and>
   length (word_translations (fst (update_database [((1, 1, 1), Some r_h_m)] example_db))) = 4 \<and>
   etymology (word_translations (fst (update_database [((1, 1, 1), Some r_h_m)] example_db)) ! 0)
     = Some r_h_m"
proof -
  have p: "parse_morphology two_segments = Inr [((1, 1, 1), Some r_h_m)]"
    by (simp add: parse_morphology_def two_segments_def rhm_def elm_def r_h_m_def
        parse_line_def format_root_def str_eval)
  note t = importer_never_clears [OF p]
  have a: "\<exists>rt. rt \<noteq> [] \<and> Some r_h_m = Some (join dash rt) \<and> join dash rt \<noteq> []"
    using t [THEN conjunct1] by simp
  have "length (word_translations example_db) = 4"
    by (simp add: example_db_def)
  with t [THEN conjunct2, rule_format, of example_db, THEN conjunct1]
  have b: "length (word_translations (fst (update_database [((1, 1, 1), Some r_h_m)] example_db))) = 4"
    by simp
  have c: "etymology (word_translations (fst (update_database [((1, 1, 1), Some r_h_m)] example_db)) ! 0)
     = Some r_h_m"
    by (simp add: update_database_def db_eval)
  show ?thesis using p a b c by (intro conjI)
qed

subsection \<open>The etymology populator\<close>

lemma update_by_text_rows:
  "word_translations (txn (fst (update_by_text conn v a))) =
     map (\<lambda>r. if has_text a r then r\<lparr>etymology := v\<rparr> else r) (word_translations (txn conn))"
  by (simp add: update_by_text_def Let_def)

lemma update_by_text_rowcount:
  "snd (update_by_text conn v a) = length (filter (has_text a) (word_translations (txn conn)))"
  by (simp add: update_by_text_def Let_def)

lemma has_text_Some: "has_text (Some a) = (\<lambda>r. arabic_text r = Some a)"
  by (auto simp: has_text_def fun_eq_iff)

lemma csv_rows_skip:
  "\<not> truthy (row_get row (ascii ''etymology'')) \<Longrightarrow>
     csv_rows (row # rest) (conn, updated) = csv_rows rest (conn, updated)"
  by simp

lemma csv_rows_update:
  "truthy (row_get row (ascii ''etymology'')) \<Longrightarrow> map_of row (ascii ''arabic_text'') = Some (Some a) \<Longrightarrow>
     csv_rows (row # rest) (conn, updated)
       = csv_rows rest (json_rows [(a, row_get row (ascii ''etymology''))] (conn, updated))"
  by (simp add: row_item_def split_beta)

lemma csv_rows_as_json:
  "(\<And>row. row \<in> set reader \<Longrightarrow> truthy (row_get row (ascii ''etymology'')) \<Longrightarrow>
        \<exists>a. map_of row (ascii ''arabic_text'') = Some (Some a)) \<Longrightarrow>
   csv_rows reader st = Inr (json_rows (csv_pairs reader) st)"
proof (induction reader arbitrary: st)
  case Nil
  then show ?case by (simp add: csv_pairs_def)
next
  case (Cons row reader)
  obtain conn updated where st: "st = (conn, updated)" by (cases st)
  have ih: "csv_rows reader st' = Inr (json_rows (csv_pairs reader) st')" for st'
    by (rule Cons.IH) (use Cons.prems in auto)
  show ?case
  proof (cases "truthy (row_get row (ascii ''etymology''))")
    case False
    then have "csv_pairs (row # reader) = csv_pairs reader"
      by (simp add: csv_pairs_def)
    with False ih show ?thesis by (simp add: st)
  next
    case True
    with Cons.prems [of row] obtain a where a: "map_of row (ascii ''arabic_text'') = Some (Some a)"
      by auto
    with True have "csv_pairs (row # reader) = (a, row_get row (ascii ''etymology'')) # csv_pairs reader"
      by (simp add: csv_pairs_def)
    with True a ih show ?thesis by (simp add: st row_item_def split_beta)
  qed
qed

lemma csv_pairs_truthy: "(a, e) \<in> set (csv_pairs reader) \<Longrightarrow> truthy e"
  by (induction reader) (auto simp: csv_pairs_def split: if_splits option.splits)

text \<open>
  C7. A row whose etymology is empty or absent is passed over: the connection and the
  count stay as they are. A row with a non-empty etymology \<open>e\<close> and the text \<open>a\<close> does what
  the JSON loop does for the item \<open>(a, e)\<close>: every row of the table whose \<open>arabic_text\<close> is
  \<open>a\<close> gets \<open>e\<close>, the others stay, and the count grows by the number of those rows. For a
  whole file whose rows with an etymology have an \<open>arabic_text\<close>, the result is that of the
  JSON mode on the pairs of the rows that are not skipped, all of which have a non-empty
  etymology.
\<close>

theorem csv_skips_empty_etymology:
  "(\<not> truthy (row_get row (ascii ''etymology'')) \<longrightarrow>
      csv_rows (row # rest) (conn, updated) = csv_rows rest (conn, updated)) \<and>
   (truthy (row_get row (ascii ''etymology'')) \<and> map_of row (ascii ''arabic_text'') = Some (Some a) \<longrightarrow>
      csv_rows (row # rest) (conn, updated)
        = csv_rows rest (json_rows [(a, row_get row (ascii ''etymology''))] (conn, updated)) \<and>
      json_rows [(a, row_get row (ascii ''etymology''))] (conn, updated)
        = (fst (update_by_text conn (row_get row (ascii ''etymology'')) (Some a)),
           updated + length (filter (\<lambda>r. arabic_text r = Some a) (word_translations (txn conn)))) \<and>
      word_translations (txn (fst (update_by_text conn (row_get row (ascii ''etymology'')) (Some a))))
        = map (\<lambda>r. if arabic_text r = Some a
                    then r\<lparr>etymology := row_get row (ascii ''etymology'')\<rparr> else r)
            (word_translations (txn conn))) \<and>
   ((\<forall>row \<in> set reader. truthy (row_get row (ascii ''etymology'')) \<longrightarrow>
        (\<exists>a. map_of row (ascii ''arabic_text'') = Some (Some a))) \<longrightarrow>
      update_from_csv reader db = Inr (update_from_json (csv_pairs reader) db) \<and>
      set (csv_pairs reader) \<subseteq> {(a, e). truthy e})"
proof (intro conjI impI)
  assume "\<not> truthy (row_get row (ascii ''etymology''))"
  then show "csv_rows (row # rest) (conn, updated) = csv_rows rest (conn, updated)"
    by (rule csv_rows_skip)
next
  assume h: "truthy (row_get row (ascii ''etymology'')) \<and> map_of row (ascii ''arabic_text'') = Some (Some a)"
  then have t: "truthy (row_get row (ascii ''etymology''))"
    and m: "map_of row (ascii ''arabic_text'') = Some (Some a)" by auto
  show "csv_rows (row # rest) (conn, updated)
        = csv_rows rest (json_rows [(a, row_get row (ascii ''etymology''))] (conn, updated))"
    by (rule csv_rows_update [OF t m])
  show "json_rows [(a, row_get row (ascii ''etymology''))] (conn, updated)
        = (fst (update_by_text conn (row_get row (ascii ''etymology'')) (Some a)),
           updated + length (filter (\<lambda>r. arabic_text r = Some a) (word_translations (txn conn))))"
    by (simp add: split_beta update_by_text_rowcount has_text_Some)
  show "word_translations (txn (fst (update_by_text conn (row_get row (ascii ''etymology'')) (Some a))))
        = map (\<lambda>r. if arabic_text r = Some a
                    then r\<lparr>etymology := row_get row (ascii ''etymology'')\<rparr> else r)
            (word_translations (txn conn))"
    by (simp add: update_by_text_rows has_text_Some)
next
  assume h: "\<forall>row \<in> set reader. truthy (row_get row (ascii ''etymology'')) \<longrightarrow>
        (\<exists>a. map_of row (ascii ''arabic_text'') = Some (Some a))"
  then have "csv_rows reader (connect db, 0) = Inr (json_rows (csv_pairs reader) (connect db, 0))"
    by (intro csv_rows_as_json) auto
  then show "update_from_csv reader db = Inr (update_from_json (csv_pairs reader) db)"
    by (simp add: update_from_csv_def update_from_json_def split_beta)
  show "set (csv_pairs reader) \<subseteq> {(a, e). truthy e}"
    using csv_pairs_truthy by auto
qed


theorem csv_skips_empty_etymology_witness:
  "\<not> truthy (row_get (example_csv ! 0) (ascii ''etymology'')) \<and>
   \<not> truthy (row_get (example_csv ! 2) (ascii ''etymology'')) \<and>
   truthy (row_get (example_csv ! 1) (ascii ''etymology'')) \<and>
   map_of (example_csv ! 1) (ascii ''arabic_text'') = Some (Some [1576]) \<and>
   csv_pairs example_csv = [([1576], Some r_h_m)] \<and>
   update_from_csv example_csv example_db = Inr (example_db_both, 2) \<and>
   update_from_json [([1576], Some r_h_m)] example_db = (example_db_both, 2)"
proof -
  have r0: "\<not> truthy (row_get (example_csv ! 0) (ascii ''etymology''))"
    by (simp add: example_csv_def row_get_def truthy_def ascii_def)
  have r2: "\<not> truthy (row_get (example_csv ! 2) (ascii ''etymology''))"
    by (simp add: example_csv_def row_get_def truthy_def ascii_def)
  have r1: "truthy (row_get (example_csv ! 1) (ascii ''etymology''))"
    by (simp add: example_csv_def row_get_def truthy_def ascii_def r_h_m_def)
  have m1: "map_of (example_csv ! 1) (ascii ''arabic_text'') = Some (Some [1576])"
    by (simp add: example_csv_def ascii_def)
  have p: "csv_pairs example_csv = [([1576], Some r_h_m)]"
    by (simp add: csv_pairs_def example_csv_def row_get_def truthy_def ascii_def r_h_m_def)
  have j: "update_from_json [([1576], Some r_h_m)] example_db = (example_db_both, 2)"
    by (simp add: update_from_json_def example_db_both_def db_eval)
  have h: "\<forall>row \<in> set example_csv. truthy (row_get row (ascii ''etymology'')) \<longrightarrow>
        (\<exists>a. map_of row (ascii ''arabic_text'') = Some (Some a))"
    by (simp add: example_csv_def row_get_def truthy_def ascii_def)
  from csv_skips_empty_etymology [of undefined undefined undefined undefined undefined
      example_csv example_db, THEN conjunct2, THEN conjunct2, THEN mp, OF h, THEN conjunct1]
  have c: "update_from_csv example_csv example_db = Inr (example_db_both, 2)"
    unfolding p j .
  show ?thesis using r0 r2 r1 m1 p c j by (intro conjI)
qed


lemma strip_skip: "py_strip (ascii ''skip'') = ascii ''skip''"
  by (simp add: str_eval)

lemma strip_quit: "py_strip (ascii ''quit'') = ascii ''quit''"
  by (simp add: str_eval)

lemma strip_r_h_m: "py_strip r_h_m = r_h_m"
  by (simp add: r_h_m_def str_eval)

lemma lower_words:
  "py_lower (ascii ''skip'') = ascii ''skip''" "py_lower (ascii ''quit'') = ascii ''quit''"
  "py_lower r_h_m = r_h_m" "ascii ''skip'' \<noteq> ascii ''quit''" "r_h_m \<noteq> ascii ''quit''"
  "r_h_m \<noteq> ascii ''skip''" "r_h_m \<noteq> []"
  by (simp_all add: py_lower_def lower_char_def r_h_m_def ascii_def)

lemma interactive_loop_skip_root_quit:
  "interactive_loop conn (w1 # w2 # w3 # others) (ascii ''skip'' # r_h_m # ascii ''quit'' # rest)
     = Inr (fst (update_by_text conn (Some r_h_m) (fst w2)), rest)"
proof -
  obtain a1 t1 l1 a2 t2 l2 a3 t3 l3 where w: "w1 = (a1, t1, l1)" "w2 = (a2, t2, l2)" "w3 = (a3, t3, l3)"
    by (metis prod_cases3)
  show ?thesis
    unfolding w
    by (simp add: strip_skip strip_quit strip_r_h_m lower_words Let_def)
qed

text \<open>
  C6, as the code has it. Let the session prompt for three words (or more), and let the
  input be \<open>skip\<close>, the root REH - HAH - MEEM, \<open>quit\<close>, and anything after that. Then the
  session ends without an exception, and the committed file is the original one in which
  exactly the rows with the Arabic text of the second word have the root as etymology:
  every other row is as it was, and no row is written when that text is \<open>NULL\<close>. The rows of
  the first and of the third word are as they were when their Arabic text is not that of
  the second word. The input after \<open>quit\<close> is left unread: no further word is prompted.
\<close>

theorem interactive_skip_root_quit:
  assumes "select_words db = w1 # w2 # w3 # others"
  shows "interactive_mode (ascii ''skip'' # r_h_m # ascii ''quit'' # rest) db
           = Inr (with_etymology_for (fst w2) (Some r_h_m) db, rest) \<and>
         length (word_translations (with_etymology_for (fst w2) (Some r_h_m) db))
           = length (word_translations db) \<and>
         (\<forall>i < length (word_translations db).
            word_translations (with_etymology_for (fst w2) (Some r_h_m) db) ! i =
              (if fst w2 \<noteq> None \<and> arabic_text (word_translations db ! i) = fst w2
               then (word_translations db ! i)\<lparr>etymology := Some r_h_m\<rparr>
               else word_translations db ! i)) \<and>
         (fst w2 = None \<longrightarrow> with_etymology_for (fst w2) (Some r_h_m) db = db) \<and>
         (\<forall>i < length (word_translations db).
            (arabic_text (word_translations db ! i) = fst w1 \<and> fst w1 \<noteq> fst w2 \<or>
             arabic_text (word_translations db ! i) = fst w3 \<and> fst w3 \<noteq> fst w2) \<longrightarrow>
            word_translations (with_etymology_for (fst w2) (Some r_h_m) db) ! i
              = word_translations db ! i)"
proof -
  have "txn (connect db) = db" by (simp add: connect_def)
  then have "interactive_mode (ascii ''skip'' # r_h_m # ascii ''quit'' # rest) db
      = Inr (txn (fst (update_by_text (connect db) (Some r_h_m) (fst w2))), rest)"
    using assms
    by (simp add: interactive_mode_def Let_def interactive_loop_skip_root_quit commit_def close_def
        del: interactive_loop.simps)
  moreover have "txn (fst (update_by_text (connect db) (Some r_h_m) (fst w2)))
      = with_etymology_for (fst w2) (Some r_h_m) db"
    by (simp add: update_by_text_def with_etymology_for_def connect_def Let_def)
  moreover have "fst w2 = None \<longrightarrow> with_etymology_for (fst w2) (Some r_h_m) db = db"
    by (simp add: with_etymology_for_def has_text_def)
  ultimately show ?thesis
    by (auto simp: with_etymology_for_def has_text_def)
qed

theorem interactive_skip_root_quit_witness:
  "select_words example_db =
     [(Some [1575], Some (ascii ''t''), None), (Some [1576], Some (ascii ''t''), None),
      (Some [1578], Some (ascii ''t''), None)] \<and>
   interactive_mode [ascii ''skip'', r_h_m, ascii ''quit'', ascii ''unread''] example_db
     = Inr (example_db_both, [ascii ''unread'']) \<and>
   word_translations example_db_both ! 0 = word_translations example_db ! 0 \<and>
   word_translations example_db_both ! 2 = word_translations example_db ! 2"
proof -
  have s: "select_words example_db =
     [(Some [1575], Some (ascii ''t''), None), (Some [1576], Some (ascii ''t''), None),
      (Some [1578], Some (ascii ''t''), None)]"
    by (simp add: select_words_def missing_etymology_def distinct_first_def example_db_def
        example_row_def)
  have d: "with_etymology_for (Some [1576]) (Some r_h_m) example_db = example_db_both"
    by (simp add: with_etymology_for_def example_db_both_def db_eval)
  note t = interactive_skip_root_quit [OF s, of "[ascii ''unread'']"]
  from t [THEN conjunct1]
  have m: "interactive_mode [ascii ''skip'', r_h_m, ascii ''quit'', ascii ''unread''] example_db
     = Inr (example_db_both, [ascii ''unread''])"
    by (simp only: fst_conv d)
  note u = t [THEN conjunct2, THEN conjunct2, THEN conjunct2, THEN conjunct2, unfolded fst_conv d]
  have r0: "word_translations example_db_both ! 0 = word_translations example_db ! 0"
    using u [rule_format, of 0] by (simp add: example_db_def example_row_def)
  have r2: "word_translations example_db_both ! 2 = word_translations example_db ! 2"
    using u [rule_format, of 2] by (simp add: example_db_def example_row_def)
  from s m r0 r2 show ?thesis by (intro conjI)
qed

text \<open>Three prompted words of which the first two have the same Arabic text and different
  translations: the row of the first word, which was skipped, gets the root of the second.\<close>

theorem interactive_shared_text:
  "select_words shared_text_db =
     [(Some [1575], Some (ascii ''t''), None), (Some [1575], Some (ascii ''u''), None),
      (Some [1576], Some (ascii ''t''), None)] \<and>
   interactive_mode [ascii ''skip'', r_h_m, ascii ''quit''] shared_text_db
     = Inr (shared_text_db_after, []) \<and>
   etymology (word_translations shared_text_db ! 0) = None \<and>
   etymology (word_translations shared_text_db_after ! 0) = Some r_h_m"
proof -
  have s: "select_words shared_text_db =
     [(Some [1575], Some (ascii ''t''), None), (Some [1575], Some (ascii ''u''), None),
      (Some [1576], Some (ascii ''t''), None)]"
    by (simp add: select_words_def missing_etymology_def distinct_first_def shared_text_db_def
        example_row_def ascii_def)
  have t: "txn (connect shared_text_db) = shared_text_db" by (simp add: connect_def)
  have u: "txn (fst (update_by_text (connect shared_text_db) (Some r_h_m) (Some [1575])))
      = shared_text_db_after"
    by (simp add: shared_text_db_def shared_text_db_after_def db_eval)
  have "interactive_mode [ascii ''skip'', r_h_m, ascii ''quit''] shared_text_db
     = Inr (shared_text_db_after, [])"
    by (simp add: interactive_mode_def Let_def t s interactive_loop_skip_root_quit u
        commit_def close_def del: interactive_loop.simps)
  moreover have "etymology (word_translations shared_text_db ! 0) = None"
    by (simp add: shared_text_db_def example_row_def)
  moreover have "etymology (word_translations shared_text_db_after ! 0) = Some r_h_m"
    by (simp add: shared_text_db_after_def example_row_def)
  ultimately show ?thesis using s by (intro conjI)
qed

lemma dropWhile_all: "\<forall>c \<in> set xs. P c \<Longrightarrow> dropWhile P xs = []"
  by (induction xs) auto

lemma dropWhile_past: "\<forall>c \<in> set xs. P c \<Longrightarrow> dropWhile P (xs @ ys) = dropWhile P ys"
  by (induction xs) auto

lemma strip_all_space: "\<forall>c \<in> set line. isspace c \<Longrightarrow> py_strip line = []"
  by (simp add: py_strip_def dropWhile_all)

lemma strip_padded:
  assumes "\<forall>c \<in> set pre. isspace c" "\<forall>c \<in> set post. isspace c"
    and "core \<noteq> []" "\<not> isspace (hd core)" "\<not> isspace (last core)"
  shows "py_strip (pre @ core @ post) = core"
proof -
  from assms(3,4) obtain c cs where c: "core = c # cs" "\<not> isspace c"
    by (cases core) auto
  have "dropWhile isspace (pre @ core @ post) = core @ post"
    using assms(1) c by (simp add: dropWhile_past)
  moreover have "dropWhile isspace (rev (core @ post)) = rev core"
  proof -
    from assms(3,5) obtain d ds where d: "rev core = d # ds" "\<not> isspace d"
      by (cases core rule: rev_cases) auto
    have "dropWhile isspace (rev post @ rev core) = dropWhile isspace (rev core)"
      using assms(2) by (simp add: dropWhile_past)
    with d show ?thesis by simp
  qed
  ultimately show ?thesis by (simp add: py_strip_def)
qed

text \<open>
  C10. The loop reacts to the stripped line: a line of whitespace only moves to the next
  word with the connection unchanged; the comparisons with \<open>quit\<close> and \<open>skip\<close> are made on
  the stripped and lowercased line; any other non-empty stripped line is written, stripped
  but not lowercased. A line with whitespace around a text that neither begins nor ends
  with whitespace is stripped to that text and has the effect of the text alone.
\<close>

theorem interactive_input_stripped:
  "((\<forall>c \<in> set line. isspace c) \<longrightarrow>
      interactive_loop conn (word # words) (line # stdin) = interactive_loop conn words stdin) \<and>
   (py_lower (py_strip line) = ascii ''quit'' \<longrightarrow>
      interactive_loop conn (word # words) (line # stdin) = Inr (conn, stdin)) \<and>
   (py_lower (py_strip line) = ascii ''skip'' \<longrightarrow>
      interactive_loop conn (word # words) (line # stdin) = interactive_loop conn words stdin) \<and>
   (py_lower (py_strip line) \<noteq> ascii ''quit'' \<and> py_lower (py_strip line) \<noteq> ascii ''skip'' \<and>
    py_strip line \<noteq> [] \<longrightarrow>
      interactive_loop conn (word # words) (line # stdin)
        = interactive_loop (fst (update_by_text conn (Some (py_strip line)) (fst word))) words stdin) \<and>
   ((\<forall>c \<in> set pre. isspace c) \<and> (\<forall>c \<in> set post. isspace c) \<and>
    core \<noteq> [] \<and> \<not> isspace (hd core) \<and> \<not> isspace (last core) \<longrightarrow>
      py_strip (pre @ core @ post) = core \<and>
      interactive_loop conn (word # words) ((pre @ core @ post) # stdin)
        = interactive_loop conn (word # words) (core # stdin))"
proof -
  obtain a t l where w: "word = (a, t, l)" by (metis prod_cases3)
  have q: "ascii ''skip'' \<noteq> ascii ''quit''" "py_lower [] \<noteq> ascii ''quit''"
    by (simp_all add: ascii_def py_lower_def)
  have 1: "(\<forall>c \<in> set line. isspace c) \<longrightarrow>
      interactive_loop conn (word # words) (line # stdin) = interactive_loop conn words stdin"
    using q by (auto simp: w strip_all_space Let_def)
  have 2: "py_lower (py_strip line) = ascii ''quit'' \<longrightarrow>
      interactive_loop conn (word # words) (line # stdin) = Inr (conn, stdin)"
    by (simp add: w Let_def)
  have 3: "py_lower (py_strip line) = ascii ''skip'' \<longrightarrow>
      interactive_loop conn (word # words) (line # stdin) = interactive_loop conn words stdin"
    using q by (simp add: w Let_def)
  have 4: "py_lower (py_strip line) \<noteq> ascii ''quit'' \<and> py_lower (py_strip line) \<noteq> ascii ''skip'' \<and>
    py_strip line \<noteq> [] \<longrightarrow>
      interactive_loop conn (word # words) (line # stdin)
        = interactive_loop (fst (update_by_text conn (Some (py_strip line)) (fst word))) words stdin"
    by (simp add: w Let_def)
  have 5: "(\<forall>c \<in> set pre. isspace c) \<and> (\<forall>c \<in> set post. isspace c) \<and>
    core \<noteq> [] \<and> \<not> isspace (hd core) \<and> \<not> isspace (last core) \<longrightarrow>
      py_strip (pre @ core @ post) = core \<and>
      interactive_loop conn (word # words) ((pre @ core @ post) # stdin)
        = interactive_loop conn (word # words) (core # stdin)"
  proof (intro impI)
    assume h: "(\<forall>c \<in> set pre. isspace c) \<and> (\<forall>c \<in> set post. isspace c) \<and>
      core \<noteq> [] \<and> \<not> isspace (hd core) \<and> \<not> isspace (last core)"
    then have a: "py_strip (pre @ core @ post) = core"
      by (intro strip_padded) auto
    from h have b: "py_strip core = core"
      using strip_padded [of "[]" "[]" core] by simp
    show "py_strip (pre @ core @ post) = core \<and>
      interactive_loop conn (word # words) ((pre @ core @ post) # stdin)
        = interactive_loop conn (word # words) (core # stdin)"
      using a b by (simp add: w Let_def)
  qed
  from 1 2 3 4 5 show ?thesis by blast
qed

theorem interactive_input_stripped_witness:
  "interactive_loop (connect example_db) (select_words example_db) [[32, 9, 32], ascii '' QUIT '', r_h_m]
     = Inr (connect example_db, [r_h_m]) \<and>
   interactive_loop (connect example_db) (select_words example_db) [ascii ''Skip  '', ascii ''quit'']
     = Inr (connect example_db, []) \<and>
   interactive_loop (connect example_db) (select_words example_db) [[32] @ r_h_m @ [32, 32], ascii ''quit'']
     = Inr (fst (update_by_text (connect example_db) (Some r_h_m) (Some [1575])), [])"
proof -
  have s: "select_words example_db =
     [(Some [1575], Some (ascii ''t''), None), (Some [1576], Some (ascii ''t''), None),
      (Some [1578], Some (ascii ''t''), None)]"
    by (simp add: select_words_def missing_etymology_def distinct_first_def example_db_def
        example_row_def)
  have sp: "\<forall>c \<in> set [32, 9, 32]. isspace c" by (simp add: isspace_def)
  have q: "py_lower (py_strip (ascii '' QUIT '')) = ascii ''quit''"
    by (simp add: py_lower_def lower_char_def str_eval)
  have k: "py_lower (py_strip (ascii ''Skip  '')) = ascii ''skip''"
    by (simp add: py_lower_def lower_char_def str_eval)
  have q': "py_lower (py_strip (ascii ''quit'')) = ascii ''quit''"
    by (simp add: py_lower_def lower_char_def str_eval)
  have p: "(\<forall>c \<in> set [32]. isspace c) \<and> (\<forall>c \<in> set [32, 32]. isspace c) \<and>
    r_h_m \<noteq> [] \<and> \<not> isspace (hd r_h_m) \<and> \<not> isspace (last r_h_m)"
    by (simp add: isspace_def r_h_m_def)
  have o: "py_lower (py_strip r_h_m) \<noteq> ascii ''quit'' \<and> py_lower (py_strip r_h_m) \<noteq> ascii ''skip'' \<and>
    py_strip r_h_m \<noteq> []"
    by (simp add: strip_r_h_m lower_words)
  note t = interactive_input_stripped
  have a: "interactive_loop (connect example_db) (select_words example_db) [[32, 9, 32], ascii '' QUIT '', r_h_m]
     = Inr (connect example_db, [r_h_m])"
    unfolding s
    by (simp only: t [THEN conjunct1, THEN mp, OF sp] t [THEN conjunct2, THEN conjunct1, THEN mp, OF q])
  have b: "interactive_loop (connect example_db) (select_words example_db) [ascii ''Skip  '', ascii ''quit'']
     = Inr (connect example_db, [])"
    unfolding s
    by (simp only: t [THEN conjunct2, THEN conjunct2, THEN conjunct1, THEN mp, OF k]
        t [THEN conjunct2, THEN conjunct1, THEN mp, OF q'])
  have c: "interactive_loop (connect example_db) (select_words example_db) [[32] @ r_h_m @ [32, 32], ascii ''quit'']
     = Inr (fst (update_by_text (connect example_db) (Some r_h_m) (Some [1575])), [])"
    unfolding s
    by (simp only: t [THEN conjunct2, THEN conjunct2, THEN conjunct2, THEN conjunct2, THEN mp, OF p, THEN conjunct2]
        t [THEN conjunct2, THEN conjunct2, THEN conjunct2, THEN conjunct1, THEN mp, OF o]
        t [THEN conjunct2, THEN conjunct1, THEN mp, OF q'] strip_r_h_m fst_conv)
  from a b c show ?thesis by (intro conjI)
qed

subsection \<open>Statistics\<close>

lemma map_filter_Nil_iff: "List.map_filter f xs = [] \<longleftrightarrow> (\<forall>x \<in> set xs. f x = None)"
  by (induction xs) (auto split: option.splits)

lemma count_distinct_text_zero:
  "count_distinct_text rows = 0 \<longleftrightarrow> (\<forall>r \<in> set rows. arabic_text r = None)"
  by (simp add: count_distinct_text_def map_filter_Nil_iff)

lemma show_stats_empty_table:
  "word_translations db = [] \<Longrightarrow>
     show_stats db = ([Total_word_entries 0, Unique_words 0], Some ZeroDivisionError)"
  by (simp add: show_stats_def true_div_def count_distinct_text_def)

lemma show_stats_complete:
  assumes "\<exists>r \<in> set (word_translations db). arabic_text r \<noteq> None"
  shows "show_stats db =
     ([Total_word_entries (length (word_translations db)),
       Unique_words (count_distinct_text (word_translations db)),
       Entries_with_etymology (length (filter nonempty_etymology (word_translations db)))
         (of_nat (100 * length (filter nonempty_etymology (word_translations db)))
            / of_nat (length (word_translations db))),
       Unique_words_with_etymology
         (count_distinct_text (filter nonempty_etymology (word_translations db)))
         (of_nat (100 * count_distinct_text (filter nonempty_etymology (word_translations db)))
            / of_nat (count_distinct_text (word_translations db)))], None)"
proof -
  from assms have "word_translations db \<noteq> []" by auto
  moreover from assms have "count_distinct_text (word_translations db) \<noteq> 0"
    by (simp add: count_distinct_text_zero)
  ultimately show ?thesis
    by (simp add: show_stats_def true_div_def Let_def)
qed

lemma show_stats_raises:
  assumes "\<forall>r \<in> set (word_translations db). arabic_text r = None"
  shows "snd (show_stats db) = Some ZeroDivisionError"
proof -
  from assms have "count_distinct_text (word_translations db) = 0"
    by (simp add: count_distinct_text_zero)
  then show ?thesis
    by (simp add: show_stats_def true_div_def Let_def)
qed

text \<open>
  C1, as the code has it. On an empty table \<open>show_stats\<close> prints the two counts, both \<open>0\<close>,
  and then raises \<open>ZeroDivisionError\<close> in the first percentage: no percentage is reported.
  It returns normally exactly when some row has an \<open>arabic_text\<close> that is not \<open>NULL\<close> (both
  denominators are then positive); the only exception it can raise is \<open>ZeroDivisionError\<close>;
  and when it returns, the two percentages are \<open>100 * count / denominator\<close>.
\<close>

theorem show_stats_division:
  "(word_translations db = [] \<longrightarrow>
      show_stats db = ([Total_word_entries 0, Unique_words 0], Some ZeroDivisionError) \<and>
      percentages (fst (show_stats db)) = []) \<and>
   (snd (show_stats db) = None \<longleftrightarrow> (\<exists>r \<in> set (word_translations db). arabic_text r \<noteq> None)) \<and>
   (snd (show_stats db) = None \<or> snd (show_stats db) = Some ZeroDivisionError) \<and>
   ((\<exists>r \<in> set (word_translations db). arabic_text r \<noteq> None) \<longrightarrow>
      percentages (fst (show_stats db)) =
        [of_nat (100 * length (filter nonempty_etymology (word_translations db)))
           / of_nat (length (word_translations db)),
         of_nat (100 * count_distinct_text (filter nonempty_etymology (word_translations db)))
           / of_nat (count_distinct_text (word_translations db))])"
proof -
  have 1: "word_translations db = [] \<longrightarrow>
      show_stats db = ([Total_word_entries 0, Unique_words 0], Some ZeroDivisionError) \<and>
      percentages (fst (show_stats db)) = []"
    by (simp add: show_stats_empty_table)
  have 2: "snd (show_stats db) = None \<longleftrightarrow> (\<exists>r \<in> set (word_translations db). arabic_text r \<noteq> None)"
  proof (cases "\<exists>r \<in> set (word_translations db). arabic_text r \<noteq> None")
    case True
    then show ?thesis by (simp add: show_stats_complete)
  next
    case False
    then have "\<forall>r \<in> set (word_translations db). arabic_text r = None" by auto
    from show_stats_raises [OF this] False show ?thesis by simp
  qed
  have 3: "snd (show_stats db) = None \<or> snd (show_stats db) = Some ZeroDivisionError"
    using 2 show_stats_raises [of db] by blast
  have 4: "(\<exists>r \<in> set (word_translations db). arabic_text r \<noteq> None) \<longrightarrow>
      percentages (fst (show_stats db)) =
        [of_nat (100 * length (filter nonempty_etymology (word_translations db)))
           / of_nat (length (word_translations db)),
         of_nat (100 * count_distinct_text (filter nonempty_etymology (word_translations db)))
           / of_nat (count_distinct_text (word_translations db))]"
    by (simp add: show_stats_complete)
  from 1 2 3 4 show ?thesis by blast
qed

theorem show_stats_division_witness:
  "word_translations empty_db = [] \<and>
   (\<exists>r \<in> set (word_translations example_db_second). arabic_text r \<noteq> None) \<and>
   snd (show_stats example_db_second) = None \<and>
   percentages (fst (show_stats example_db_second)) = [25, 100 / 3] \<and>
   percentages (fst (show_stats empty_db)) = []"
proof -
  have e: "word_translations empty_db = []" by (simp add: empty_db_def)
  have x: "\<exists>r \<in> set (word_translations example_db_second). arabic_text r \<noteq> None"
    by (simp add: example_db_second_def example_row_def)
  note t = show_stats_division [of example_db_second]
  have n: "snd (show_stats example_db_second) = None"
    using t [THEN conjunct2, THEN conjunct1] x by blast
  have "length (filter nonempty_etymology (word_translations example_db_second)) = 1"
    "length (word_translations example_db_second) = 4"
    "count_distinct_text (filter nonempty_etymology (word_translations example_db_second)) = 1"
    "count_distinct_text (word_translations example_db_second) = 3"
    by (simp_all add: example_db_second_def example_row_def nonempty_etymology_def
        count_distinct_text_def r_h_m_def)
  with t [THEN conjunct2, THEN conjunct2, THEN conjunct2, THEN mp, OF x]
  have p: "percentages (fst (show_stats example_db_second)) = [25, 100 / 3]"
    by simp
  have z: "percentages (fst (show_stats empty_db)) = []"
    using show_stats_division [of empty_db, THEN conjunct1, THEN mp, OF e] by blast
  from e x n p z show ?thesis by (intro conjI)
qed

text \<open>The statistics of the empty table: two lines, then the exception.\<close>

theorem show_stats_empty_db:
  "show_stats empty_db = ([Total_word_entries 0, Unique_words 0], Some ZeroDivisionError)"
  by (simp add: show_stats_def true_div_def count_distinct_text_def empty_db_def)

subsection \<open>The root meanings seeder\<close>

lemma accepted_cases:
  obtains (ok) rt primary rest where "e = (Some rt, Some primary, rest)" "accepted e"
        | (bad) "\<not> accepted e" "insert_or_replace conn e = Inl IntegrityError"
proof (cases "accepted e")
  case True
  then obtain rt primary rest where "e = (Some rt, Some primary, rest)"
    by (cases e) (auto simp: accepted_def)
  with True ok show ?thesis by blast
next
  case False
  then have "insert_or_replace conn e = Inl IntegrityError"
    by (cases e) (auto simp: accepted_def insert_or_replace_def split: option.splits)
  with False bad show ?thesis by blast
qed

lemma not_accepted_upsert: "\<not> accepted e \<Longrightarrow> upsert_by_root (e # es) cs = upsert_by_root es cs"
  by (cases "(e # es, cs)" rule: upsert_by_root.cases) (auto simp: accepted_def)

lemma not_accepted_roots: "\<not> accepted e \<Longrightarrow> catalog_roots (e # es) = catalog_roots es"
  by (simp add: catalog_roots_def)

lemma accepted_roots: "catalog_roots ((Some rt, Some p, rest) # es) = rt # catalog_roots es"
  by (simp add: catalog_roots_def accepted_def)

lemma insert_accepted:
  "insert_or_replace conn (Some rt, Some p, x, u, n) =
     Inr (conn\<lparr>txn := (txn conn)\<lparr>root_meanings :=
            filter (\<lambda>r. root_col r \<noteq> rt) (root_meanings (txn conn)) @
              [\<lparr>rm_id = next_id (txn conn), root_col = rt, primary_meaning = p,
                extended_meaning = x, quran_usage = u, notes_col = n\<rparr>],
            root_meanings_seq := next_id (txn conn)\<rparr>\<rparr>)"
  by (simp add: insert_or_replace_def Let_def)

lemma id_below_next: "r \<in> set (root_meanings db) \<Longrightarrow> rm_id r < next_id db"
proof -
  assume "r \<in> set (root_meanings db)"
  then have "rm_id r \<in> set (root_meanings_seq db # map rm_id (root_meanings db))" by simp
  then have "rm_id r \<le> Max (set (root_meanings_seq db # map rm_id (root_meanings db)))"
    by (intro Max_ge) auto
  then show ?thesis by (simp add: next_id_def)
qed

lemma next_id_after_insert:
  assumes "insert_or_replace conn e = Inr conn'"
  shows "next_id (txn conn') = next_id (txn conn) + 1"
proof -
  from assms obtain rt p x u n where e: "e = (Some rt, Some p, x, u, n)"
    by (cases e) (auto simp: insert_or_replace_def split: option.splits)
  let ?n = "next_id (txn conn)"
  let ?kept = "filter (\<lambda>r. root_col r \<noteq> rt) (root_meanings (txn conn))"
  from assms have c: "root_meanings (txn conn') = ?kept @
      [\<lparr>rm_id = ?n, root_col = rt, primary_meaning = p,
                extended_meaning = x, quran_usage = u, notes_col = n\<rparr>]"
    and s: "root_meanings_seq (txn conn') = ?n"
    by (auto simp: e insert_accepted)
  have "Max (set (root_meanings_seq (txn conn') # map rm_id (root_meanings (txn conn')))) = ?n"
  proof (rule Max_eqI)
    fix y assume "y \<in> set (root_meanings_seq (txn conn') # map rm_id (root_meanings (txn conn')))"
    then have "y = ?n \<or> (\<exists>r \<in> set (root_meanings (txn conn)). y = rm_id r)"
      by (auto simp: c s)
    then show "y \<le> ?n" by (auto simp: less_imp_le id_below_next)
  qed (auto simp: s)
  then show ?thesis by (simp add: next_id_def [of "txn conn'"])
qed

lemma insert_entries_content:
  "map row_content (root_meanings (txn (fst (insert_entries es (conn, k)))))
     = upsert_by_root es (map row_content (root_meanings (txn conn)))"
proof (induction es arbitrary: conn k)
  case (Cons e es)
  show ?case
  proof (cases e rule: accepted_cases [where conn=conn])
    case (ok rt p rest)
    obtain x u n where rest: "rest = (x, u, n)" by (cases rest)
    have fm: "map row_content (filter (\<lambda>r. root_col r \<noteq> rt) rows)
        = filter (\<lambda>c. fst c \<noteq> rt) (map row_content rows)" for rows
      by (induction rows) (auto simp: row_content_def)
    have new: "row_content \<lparr>rm_id = i, root_col = rt, primary_meaning = p,
                extended_meaning = x, quran_usage = u, notes_col = n\<rparr> = (rt, p, x, u, n)" for i
      by (simp add: row_content_def)
    show ?thesis
      by (simp add: ok(1) rest insert_accepted Cons.IH fm new)
  next
    case bad
    then show ?thesis by (simp add: Cons.IH not_accepted_upsert)
  qed
qed simp

lemma insert_entries_count:
  "snd (insert_entries es (conn, k)) = k + length (filter accepted es)"
proof (induction es arbitrary: conn k)
  case (Cons e es)
  show ?case
  proof (cases e rule: accepted_cases [where conn=conn])
    case (ok rt p rest)
    obtain x u n where rest: "rest = (x, u, n)" by (cases rest)
    from ok(2) show ?thesis
      by (simp add: ok(1) rest insert_accepted Cons.IH)
  next
    case bad
    then show ?thesis by (simp add: Cons.IH)
  qed
qed simp

lemma insert_entries_words:
  "word_translations (txn (fst (insert_entries es (conn, k)))) = word_translations (txn conn)"
proof (induction es arbitrary: conn k)
  case (Cons e es)
  show ?case
  proof (cases e rule: accepted_cases [where conn=conn])
    case (ok rt p rest)
    obtain x u n where rest: "rest = (x, u, n)" by (cases rest)
    show ?thesis
      by (simp add: ok(1) rest insert_accepted Cons.IH)
  next
    case bad
    then show ?thesis by (simp add: Cons.IH)
  qed
qed simp

lemma insert_entries_fresh:
  assumes "r \<in> set (root_meanings (txn (fst (insert_entries es (conn, k)))))"
  shows "(root_col r \<in> set (catalog_roots es) \<longrightarrow> next_id (txn conn) \<le> rm_id r) \<and>
         (root_col r \<notin> set (catalog_roots es) \<longrightarrow> r \<in> set (root_meanings (txn conn)))"
  using assms
proof (induction es arbitrary: conn k)
  case Nil
  then show ?case by (simp add: catalog_roots_def)
next
  case (Cons e es)
  show ?case
  proof (cases e rule: accepted_cases [where conn=conn])
    case (ok rt p rest)
    obtain x u n where rest: "rest = (x, u, n)" by (cases rest)
    let ?c = "conn\<lparr>txn := (txn conn)\<lparr>root_meanings :=
            filter (\<lambda>r. root_col r \<noteq> rt) (root_meanings (txn conn)) @
              [\<lparr>rm_id = next_id (txn conn), root_col = rt, primary_meaning = p,
                extended_meaning = x, quran_usage = u, notes_col = n\<rparr>],
            root_meanings_seq := next_id (txn conn)\<rparr>\<rparr>"
    have i: "insert_or_replace conn e = Inr ?c"
      by (simp add: ok(1) rest insert_accepted)
    then have r: "r \<in> set (root_meanings (txn (fst (insert_entries es (?c, k + 1)))))"
      using Cons.prems by simp
    note ih = Cons.IH [OF r]
    have nx: "next_id (txn ?c) = next_id (txn conn) + 1"
      by (rule next_id_after_insert [OF i])
    have roots: "catalog_roots (e # es) = rt # catalog_roots es"
      by (simp add: ok(1) accepted_roots)
    show ?thesis
    proof (cases "root_col r \<in> set (catalog_roots es)")
      case True
      with ih nx roots show ?thesis by simp
    next
      case False
      with ih have "r \<in> set (root_meanings (txn ?c))" by simp
      then have "r \<in> set (root_meanings (txn conn)) \<and> root_col r \<noteq> rt \<or>
          (rm_id r = next_id (txn conn) \<and> root_col r = rt)"
        by auto
      with False roots show ?thesis by auto
    qed
  next
    case bad
    then have "r \<in> set (root_meanings (txn (fst (insert_entries es (conn, k)))))"
      using Cons.prems by simp
    from Cons.IH [OF this] bad show ?thesis by (simp add: not_accepted_roots)
  qed
qed

lemma upsert_roots:
  "c \<in> set (upsert_by_root es cs) \<Longrightarrow> fst c \<in> set (catalog_roots es) \<or> c \<in> set cs"
proof (induction es cs rule: upsert_by_root.induct)
  case (2 rt primary rest entries cs)
  from "2.prems" have "c \<in> set (upsert_by_root entries (filter (\<lambda>c. fst c \<noteq> rt) cs @ [(rt, primary, rest)]))"
    by simp
  from "2.IH" [OF this] show ?case by (auto simp: accepted_roots)
qed (auto simp: catalog_roots_def accepted_def)

lemma upsert_split:
  "upsert_by_root es cs
     = filter (\<lambda>c. fst c \<notin> set (catalog_roots es)) cs @ upsert_by_root es []"
proof (induction es arbitrary: cs)
  case (Cons e es)
  show ?case
  proof (cases "accepted e")
    case True
    then obtain rt p rest where e: "e = (Some rt, Some p, rest)"
      by (cases e) (auto simp: accepted_def)
    have "upsert_by_root (e # es) cs = upsert_by_root es (filter (\<lambda>c. fst c \<noteq> rt) cs @ [(rt, p, rest)])"
      by (simp add: e)
    also have "\<dots> = filter (\<lambda>c. fst c \<notin> set (catalog_roots es)) (filter (\<lambda>c. fst c \<noteq> rt) cs @ [(rt, p, rest)])
        @ upsert_by_root es []"
      by (rule Cons.IH)
    also have "\<dots> = filter (\<lambda>c. fst c \<notin> set (catalog_roots (e # es))) cs
        @ (filter (\<lambda>c. fst c \<notin> set (catalog_roots es)) [(rt, p, rest)] @ upsert_by_root es [])"
      by (simp add: e accepted_roots conj_commute)
    also have "filter (\<lambda>c. fst c \<notin> set (catalog_roots es)) [(rt, p, rest)] @ upsert_by_root es []
        = upsert_by_root es [(rt, p, rest)]"
      by (rule Cons.IH [symmetric])
    also have "upsert_by_root es [(rt, p, rest)] = upsert_by_root (e # es) []"
      by (simp add: e)
    finally show ?thesis .
  next
    case False
    then show ?thesis
      by (simp add: not_accepted_upsert not_accepted_roots Cons.IH [of cs])
  qed
qed (simp add: catalog_roots_def)

lemma upsert_idempotent:
  "upsert_by_root es (upsert_by_root es cs) = upsert_by_root es cs"
proof -
  let ?R = "\<lambda>c. fst c \<notin> set (catalog_roots es)"
  have "filter ?R (upsert_by_root es []) = []"
    using upsert_roots [of _ es "[]"] by (auto simp: filter_empty_conv)
  then have "filter ?R (upsert_by_root es cs) = filter ?R cs"
    by (subst upsert_split) simp
  then have "upsert_by_root es (upsert_by_root es cs) = filter ?R cs @ upsert_by_root es []"
    by (subst upsert_split) simp
  then show ?thesis by (simp add: upsert_split [symmetric])
qed

lemma upsert_length:
  "distinct (catalog_roots es) \<Longrightarrow> set (catalog_roots es) \<inter> fst ` set cs = {} \<Longrightarrow>
     length (upsert_by_root es cs) = length cs + length (filter accepted es)"
proof (induction es arbitrary: cs)
  case (Cons e es)
  show ?case
  proof (cases "accepted e")
    case True
    then obtain rt p rest where e: "e = (Some rt, Some p, rest)"
      by (cases e) (auto simp: accepted_def)
    from Cons.prems have d: "distinct (catalog_roots es)" "rt \<notin> set (catalog_roots es)"
      and n: "rt \<notin> fst ` set cs" "set (catalog_roots es) \<inter> fst ` set cs = {}"
      by (auto simp: e accepted_roots)
    from n(1) have f: "filter (\<lambda>c. fst c \<noteq> rt) cs = cs"
      by (auto simp: filter_id_conv)
    have "set (catalog_roots es) \<inter> fst ` set (cs @ [(rt, p, rest)]) = {}"
      using d(2) n(2) by auto
    from Cons.IH [OF d(1) this] True show ?thesis
      by (simp add: e f)
  next
    case False
    with Cons show ?thesis
      by (simp add: not_accepted_upsert not_accepted_roots)
  qed
qed simp

lemma populate_catalog_txn:
  "fst (populate_catalog catalog db) = txn (fst (insert_entries catalog (connect db, 0)))"
  "snd (populate_catalog catalog db) = snd (insert_entries catalog (connect db, 0))"
  by (simp_all add: populate_catalog_def commit_def close_def split_beta)


lemma upsert_keys:
  "fst ` set (upsert_by_root es cs) = fst ` set cs \<union> set (catalog_roots es)"
proof (induction es arbitrary: cs)
  case (Cons e es)
  show ?case
  proof (cases "accepted e")
    case True
    then obtain rt p rest where e: "e = (Some rt, Some p, rest)"
      by (cases e) (auto simp: accepted_def)
    have "fst ` set (filter (\<lambda>c. fst c \<noteq> rt) cs @ [(rt, p, rest)]) = insert rt (fst ` set cs)"
      by force
    then show ?thesis
      by (simp add: e accepted_roots Cons.IH)
  next
    case False
    then show ?thesis
      by (simp add: not_accepted_upsert not_accepted_roots Cons.IH)
  qed
qed (simp add: catalog_roots_def)

lemma upsert_distinct:
  "distinct (map fst cs) \<Longrightarrow> distinct (map fst (upsert_by_root es cs))"
proof (induction es arbitrary: cs)
  case (Cons e es)
  show ?case
  proof (cases "accepted e")
    case True
    then obtain rt p rest where e: "e = (Some rt, Some p, rest)"
      by (cases e) (auto simp: accepted_def)
    have "distinct (map fst (filter (\<lambda>c. fst c \<noteq> rt) cs @ [(rt, p, rest)]))"
      using Cons.prems by (auto simp: distinct_map_filter)
    from Cons.IH [OF this] show ?thesis by (simp add: e)
  next
    case False
    with Cons show ?thesis by (simp add: not_accepted_upsert)
  qed
qed simp

lemma root_col_content: "map root_col rows = map fst (map row_content rows)"
  by (simp add: row_content_def)

lemma catalog_roots_ROOT_MEANINGS:
  "catalog_roots ROOT_MEANINGS =
     [[1603, 45, 1601, 45, 1585],
      [1585, 45, 1581, 45, 1605],
      [1587, 45, 1605, 45, 1608],
      [1593, 45, 1604, 45, 1605],
      [1581, 45, 1605, 45, 1583],
      [1571, 45, 1604, 45, 1607],
      [1589, 45, 1604, 45, 1608],
      [1593, 45, 1576, 45, 1583],
      [1607, 45, 1583, 45, 1610],
      [1602, 45, 1585, 45, 1569],
      [1571, 45, 1605, 45, 1606],
      [1580, 45, 1606, 45, 1606],
      [1606, 45, 1608, 45, 1585],
      [1592, 45, 1604, 45, 1605],
      [1588, 45, 1603, 45, 1585],
      [1578, 45, 1608, 45, 1576],
      [1584, 45, 1603, 45, 1585],
      [1601, 45, 1578, 45, 1581],
      [1587, 45, 1604, 45, 1605],
      [1602, 45, 1604, 45, 1576]]"
  by (simp add: ROOT_MEANINGS_def catalog_roots_def accepted_def)

lemma ROOT_MEANINGS_accepted: "length (filter accepted ROOT_MEANINGS) = 20"
  by (simp add: ROOT_MEANINGS_def accepted_def)

lemma ROOT_MEANINGS_roots: "distinct (catalog_roots ROOT_MEANINGS)" "length (catalog_roots ROOT_MEANINGS) = 20"
  by (simp_all add: catalog_roots_ROOT_MEANINGS)

text \<open>
  C8, as the code has it. Let \<open>db1\<close> be the file after one run of the seeder over a catalog
  and \<open>db2\<close> the file after a second run. A run is the upsert by root on the contents of
  the rows. Both files hold the same number of rows in
  \<open>root_meanings\<close>, with the same root, meanings, usage and notes in the same order, and
  the second run reports the number of accepted entries again. The roots stay unique, the
  root keys of the table are those it had and those of the catalog, and from an empty
  table the rows are as many as the catalog has distinct root keys: \<open>N\<close>, not \<open>2N\<close>. The
  rows themselves are replaced: after the second run every row with a root of the catalog
  has an \<open>id\<close> above every \<open>id\<close> of \<open>db1\<close>, and only rows with other roots are the rows
  they were. For \<open>ROOT_MEANINGS\<close>, \<open>N\<close> is 20.
\<close>

theorem seeder_rerun:
  assumes "db1 = fst (populate_catalog catalog db)"
    and "db2 = fst (populate_catalog catalog db1)"
  shows "map row_content (root_meanings db1)
           = upsert_by_root catalog (map row_content (root_meanings db)) \<and>
         map row_content (root_meanings db2) = map row_content (root_meanings db1) \<and>
         length (root_meanings db2) = length (root_meanings db1) \<and>
         snd (populate_catalog catalog db1) = length (filter accepted catalog) \<and>
         word_translations db2 = word_translations db \<and>
         (distinct (map root_col (root_meanings db)) \<longrightarrow>
            distinct (map root_col (root_meanings db1)) \<and>
            set (map root_col (root_meanings db1))
              = set (map root_col (root_meanings db)) \<union> set (catalog_roots catalog)) \<and>
         (root_meanings db = [] \<longrightarrow>
            length (root_meanings db1) = card (set (catalog_roots catalog))) \<and>
         (\<forall>r \<in> set (root_meanings db2).
            if root_col r \<in> set (catalog_roots catalog)
            then \<forall>r1 \<in> set (root_meanings db1). rm_id r1 < rm_id r
            else r \<in> set (root_meanings db1) \<and> r \<in> set (root_meanings db))"
proof -
  let ?c1 = "map row_content (root_meanings db1)"
  let ?c = "map row_content (root_meanings db)"
  have t1: "db1 = txn (fst (insert_entries catalog (connect db, 0)))"
    and t2: "db2 = txn (fst (insert_entries catalog (connect db1, 0)))"
    by (simp_all add: assms populate_catalog_txn)
  have c1: "?c1 = upsert_by_root catalog ?c"
    unfolding t1 insert_entries_content by (simp add: connect_def)
  have c2: "map row_content (root_meanings db2) = upsert_by_root catalog ?c1"
    unfolding t2 insert_entries_content by (simp add: connect_def)
  have same: "map row_content (root_meanings db2) = ?c1"
    unfolding c2 c1 by (rule upsert_idempotent)
  then have len: "length (root_meanings db2) = length (root_meanings db1)"
    by (metis length_map)
  have cnt: "snd (populate_catalog catalog db1) = length (filter accepted catalog)"
    by (simp add: populate_catalog_txn insert_entries_count)
  have "word_translations db2 = word_translations db1"
    by (subst t2) (simp add: insert_entries_words connect_def)
  also have "\<dots> = word_translations db"
    by (subst t1) (simp add: insert_entries_words connect_def)
  finally have words: "word_translations db2 = word_translations db" .
  have keys: "set (map root_col (root_meanings db1))
      = set (map root_col (root_meanings db)) \<union> set (catalog_roots catalog)"
    unfolding root_col_content c1 using upsert_keys [of catalog ?c] by (simp add: image_image)
  have dist: "distinct (map root_col (root_meanings db)) \<longrightarrow>
      distinct (map root_col (root_meanings db1))"
    unfolding root_col_content c1 by (auto intro: upsert_distinct)
  have card: "root_meanings db = [] \<longrightarrow> length (root_meanings db1) = card (set (catalog_roots catalog))"
  proof
    assume e: "root_meanings db = []"
    with dist have "distinct (map root_col (root_meanings db1))" by simp
    then have "card (set (map root_col (root_meanings db1))) = length (root_meanings db1)"
      by (metis distinct_card length_map)
    with keys e show "length (root_meanings db1) = card (set (catalog_roots catalog))" by simp
  qed
  have fresh: "\<forall>r \<in> set (root_meanings db2).
            if root_col r \<in> set (catalog_roots catalog)
            then \<forall>r1 \<in> set (root_meanings db1). rm_id r1 < rm_id r
            else r \<in> set (root_meanings db1) \<and> r \<in> set (root_meanings db)"
  proof
    fix r assume r: "r \<in> set (root_meanings db2)"
    note f2 = insert_entries_fresh [OF r [unfolded t2]]
    show "if root_col r \<in> set (catalog_roots catalog)
            then \<forall>r1 \<in> set (root_meanings db1). rm_id r1 < rm_id r
            else r \<in> set (root_meanings db1) \<and> r \<in> set (root_meanings db)"
    proof (cases "root_col r \<in> set (catalog_roots catalog)")
      case True
      with f2 have "next_id db1 \<le> rm_id r" by (simp add: connect_def)
      with id_below_next [of _ db1] True show ?thesis by fastforce
    next
      case False
      with f2 have r1: "r \<in> set (root_meanings db1)" by (simp add: connect_def)
      from insert_entries_fresh [OF r1 [unfolded t1]] False
      have "r \<in> set (root_meanings db)" by (simp add: connect_def)
      with r1 False show ?thesis by simp
    qed
  qed
  from c1 same len cnt words keys dist card fresh show ?thesis by blast
qed

theorem seeder_rerun_witness:
  "length (root_meanings (fst (populate_root_meanings empty_db))) = 20 \<and>
   length (root_meanings (fst (populate_root_meanings (fst (populate_root_meanings empty_db))))) = 20 \<and>
   map row_content (root_meanings (fst (populate_root_meanings (fst (populate_root_meanings empty_db)))))
     = map row_content (root_meanings (fst (populate_root_meanings empty_db))) \<and>
   snd (populate_root_meanings (fst (populate_root_meanings empty_db))) = 20"
proof -
  let ?db1 = "fst (populate_catalog ROOT_MEANINGS empty_db)"
  let ?db2 = "fst (populate_catalog ROOT_MEANINGS ?db1)"
  note t = seeder_rerun [of ?db1 ROOT_MEANINGS empty_db ?db2, OF refl refl]
  have e: "root_meanings empty_db = []" by (simp add: empty_db_def)
  have "card (set (catalog_roots ROOT_MEANINGS)) = 20"
    using ROOT_MEANINGS_roots by (simp add: distinct_card)
  with t e have a: "length (root_meanings ?db1) = 20" by simp
  with t have b: "length (root_meanings ?db2) = 20" by simp
  from t have c: "map row_content (root_meanings ?db2) = map row_content (root_meanings ?db1)"
    by blast
  from t have d: "snd (populate_catalog ROOT_MEANINGS ?db1) = 20"
    by (simp add: ROOT_MEANINGS_accepted)
  from a b c d show ?thesis
    unfolding populate_root_meanings_def by (intro conjI)
qed

text \<open>The table after two runs of the script on an empty file is not the table after one
  run: the rows carry other ids.\<close>

theorem seeder_rerun_new_ids:
  "root_meanings (fst (populate_root_meanings (fst (populate_root_meanings empty_db))))
     \<noteq> root_meanings (fst (populate_root_meanings empty_db))"
proof
  let ?db1 = "fst (populate_catalog ROOT_MEANINGS empty_db)"
  let ?db2 = "fst (populate_catalog ROOT_MEANINGS ?db1)"
  assume "root_meanings (fst (populate_root_meanings (fst (populate_root_meanings empty_db))))
     = root_meanings (fst (populate_root_meanings empty_db))"
  then have eq: "root_meanings ?db2 = root_meanings ?db1"
    by (simp add: populate_root_meanings_def)
  have t1: "?db1 = txn (fst (insert_entries ROOT_MEANINGS (connect empty_db, 0)))"
    and t2: "?db2 = txn (fst (insert_entries ROOT_MEANINGS (connect ?db1, 0)))"
    by (simp_all add: populate_catalog_txn)
  have "map row_content (root_meanings ?db1) = upsert_by_root ROOT_MEANINGS []"
    unfolding t1 insert_entries_content by (simp add: connect_def empty_db_def)
  then have "length (root_meanings ?db1) = length (upsert_by_root ROOT_MEANINGS [])"
    by (metis length_map)
  also have "\<dots> = 20"
    using upsert_length [of ROOT_MEANINGS "[]"] ROOT_MEANINGS_roots(1) ROOT_MEANINGS_accepted
    by simp
  finally obtain r where r: "r \<in> set (root_meanings ?db1)"
    by (cases "root_meanings ?db1") auto
  have in_cat: "root_col r \<in> set (catalog_roots ROOT_MEANINGS)"
    using insert_entries_fresh [OF r [unfolded t1]] by (auto simp: connect_def empty_db_def)
  from r eq have "r \<in> set (root_meanings ?db2)" by simp
  from insert_entries_fresh [OF this [unfolded t2]] in_cat
  have "next_id ?db1 \<le> rm_id r" by (simp add: connect_def)
  with id_below_next [OF r] show False by simp
qed

end
